theory Spec2Isabelle
  imports Main "HOL-Library.Word"
begin

unbundle bit_operations_syntax

section \<open>Results and errors\<close>

text \<open>
  The four failures of the codec. A primitive that throws in the TypeScript returns
  \<open>Inl\<close> of the error here, and \<open>andThen\<close> is the sequencing of two statements: the
  second runs only when the first did not throw.
\<close>

datatype error = CapacityExceeded | Truncated | UnknownDiscriminant | RegistryIndexOutOfRange

definition andThen :: "error + 'a \<Rightarrow> ('a \<Rightarrow> error + 'b) \<Rightarrow> error + 'b" where
  "andThen r f = (case r of Inl e \<Rightarrow> Inl e | Inr x \<Rightarrow> f x)"

text \<open>A \<open>for\<close> loop over the given indices, threading the loop's state.\<close>

fun forEach :: "nat list \<Rightarrow> (nat \<Rightarrow> 'a \<Rightarrow> error + 'a) \<Rightarrow> 'a \<Rightarrow> error + 'a" where
  "forEach [] body a = Inr a"
| "forEach (i # is) body a = andThen (body i a) (forEach is body)"

section \<open>The stream and the registries, as the packets use them\<close>

text \<open>
  The packets under \<open>src/\<close> call methods of a \<open>stream\<close> object and of the registries
  \<open>Loots\<close>, \<open>Badges\<close> and \<open>Emotes\<close>; neither class is among the sources. The packets
  therefore take the methods as a parameter: a record of the operations, over any type
  \<open>'s\<close> of stream states. A write returns the stream it leaves, a read the value and the
  stream it leaves.
\<close>

record 's StreamOps =
  writeUint8 :: "int \<Rightarrow> 's \<Rightarrow> error + 's"
  writeUint16 :: "int \<Rightarrow> 's \<Rightarrow> error + 's"
  writeUint32 :: "int \<Rightarrow> 's \<Rightarrow> error + 's"
  writeInt16 :: "int \<Rightarrow> 's \<Rightarrow> error + 's"
  writeString :: "nat \<Rightarrow> string \<Rightarrow> 's \<Rightarrow> error + 's"
  writePlayerName :: "string \<Rightarrow> 's \<Rightarrow> error + 's"
  writeBooleanGroup :: "bool list \<Rightarrow> 's \<Rightarrow> error + 's"
  writeBooleanGroup2 :: "bool list \<Rightarrow> 's \<Rightarrow> error + 's"
  readUint8 :: "'s \<Rightarrow> error + (int \<times> 's)"
  readUint16 :: "'s \<Rightarrow> error + (int \<times> 's)"
  readUint32 :: "'s \<Rightarrow> error + (int \<times> 's)"
  readInt16 :: "'s \<Rightarrow> error + (int \<times> 's)"
  readString :: "nat \<Rightarrow> 's \<Rightarrow> error + (string \<times> 's)"
  readPlayerName :: "'s \<Rightarrow> error + (string \<times> 's)"
  readBooleanGroup :: "'s \<Rightarrow> error + (bool list \<times> 's)"
  readBooleanGroup2 :: "'s \<Rightarrow> error + (bool list \<times> 's)"

text \<open>A definition of a registry; the codec only needs to tell definitions apart.\<close>

record Definition =
  idString :: string

record 's ObjectDefinitions =
  writeToStream :: "'s \<Rightarrow> Definition \<Rightarrow> error + 's"
  readFromStream :: "'s \<Rightarrow> error + (Definition \<times> 's)"

text \<open>What \<open>joinPacket.ts\<close> imports: the stream, three registries and the protocol version.\<close>

record 's Common =
  stream :: "'s StreamOps"
  Loots :: "'s ObjectDefinitions"
  Badges :: "'s ObjectDefinitions"
  Emotes :: "'s ObjectDefinitions"
  GameConstants_protocolVersion :: int

text \<open>
  Reading an element of a JavaScript array: \<open>undefined\<close> beyond its length. A flag that
  is \<open>undefined\<close> is falsy.
\<close>

definition elementAt :: "'a option list \<Rightarrow> nat \<Rightarrow> 'a option" where
  "elementAt xs i = (if i < length xs then xs ! i else None)"

definition flagAt :: "bool list \<Rightarrow> nat \<Rightarrow> bool" where
  "flagAt fs i = (i < length fs \<and> fs ! i)"

text \<open>
  An optional field of a payload, \<open>if (flag) data.x = read()\<close>: the field is assigned
  only under its flag and is \<open>undefined\<close>, here \<open>None\<close>, otherwise.
\<close>

definition readIf ::
  "bool \<Rightarrow> ('s \<Rightarrow> error + ('a \<times> 's)) \<Rightarrow> 's \<Rightarrow> error + ('a option \<times> 's)" where
  "readIf flag read s =
     (if flag then andThen (read s) (\<lambda>(x, s). Inr (Some x, s)) else Inr (None, s))"

section \<open>The math packets\<close>

text \<open>
  \<open>MathProblemData\<close> (\<open>src/unnamed/part_001\<close>). The field \<open>type\<close> of every payload is
  the constant discriminant of its packet and is not a field of the records here.
\<close>

record MathProblemData =
  problem :: string
  rewardType :: string
  rewardCount :: int
  problemId :: int

definition MathProblemPacket_serialize ::
  "'s StreamOps \<Rightarrow> 's \<Rightarrow> MathProblemData \<Rightarrow> error + 's" where
  "MathProblemPacket_serialize st s d =
     andThen (writeString st 32 (problem d) s) (\<lambda>s.
     andThen (writeString st 32 (rewardType d) s) (\<lambda>s.
     andThen (writeUint8 st (rewardCount d) s) (\<lambda>s.
     writeUint16 st (problemId d) s)))"

definition MathProblemPacket_deserialize ::
  "'s StreamOps \<Rightarrow> 's \<Rightarrow> error + (MathProblemData \<times> 's)" where
  "MathProblemPacket_deserialize st s =
     andThen (readString st 32 s) (\<lambda>(p, s).
     andThen (readString st 32 s) (\<lambda>(r, s).
     andThen (readUint8 st s) (\<lambda>(c, s).
     andThen (readUint16 st s) (\<lambda>(i, s).
     Inr (\<lparr>problem = p, rewardType = r, rewardCount = c, problemId = i\<rparr>, s)))))"

text \<open>
  \<open>MathAnswerData\<close> (\<open>src/unnamed/part_005\<close>); its fields \<open>answer\<close> and \<open>problemId\<close>
  carry the prefix \<open>ma_\<close> here, the names being taken by the other records.
\<close>

record MathAnswerData =
  ma_answer :: int
  ma_problemId :: int

definition MathAnswerPacket_serialize ::
  "'s StreamOps \<Rightarrow> 's \<Rightarrow> MathAnswerData \<Rightarrow> error + 's" where
  "MathAnswerPacket_serialize st s d =
     andThen (writeInt16 st (ma_answer d) s) (\<lambda>s.
     writeUint16 st (ma_problemId d) s)"

definition MathAnswerPacket_deserialize ::
  "'s StreamOps \<Rightarrow> 's \<Rightarrow> error + (MathAnswerData \<times> 's)" where
  "MathAnswerPacket_deserialize st s =
     andThen (readInt16 st s) (\<lambda>(a, s).
     andThen (readUint16 st s) (\<lambda>(i, s).
     Inr (\<lparr>ma_answer = a, ma_problemId = i\<rparr>, s)))"

text \<open>
  \<open>MathFeedbackData\<close> (the last document of \<open>src/server/src/utils/config.ts\<close>); an
  optional field is an \<open>option\<close>, \<open>None\<close> for \<open>undefined\<close>. Its \<open>problemId\<close> is
  \<open>mf_problemId\<close> here.
\<close>

record MathFeedbackData =
  isCorrect :: bool
  mf_problemId :: int
  xpEarned :: "int option"
  totalXP :: "int option"

definition MathFeedbackPacket_serialize ::
  "'s StreamOps \<Rightarrow> 's \<Rightarrow> MathFeedbackData \<Rightarrow> error + 's" where
  "MathFeedbackPacket_serialize st s d =
     (let hasXpEarned = (xpEarned d \<noteq> None);
          hasTotalXP = (totalXP d \<noteq> None)
      in
     andThen (writeBooleanGroup st [isCorrect d, hasXpEarned, hasTotalXP] s) (\<lambda>s.
     andThen (writeUint16 st (mf_problemId d) s) (\<lambda>s.
     andThen (case xpEarned d of Some x \<Rightarrow> writeUint16 st x s | None \<Rightarrow> Inr s) (\<lambda>s.
     (case totalXP d of Some t \<Rightarrow> writeUint32 st t s | None \<Rightarrow> Inr s)))))"

definition MathFeedbackPacket_deserialize ::
  "'s StreamOps \<Rightarrow> 's \<Rightarrow> error + (MathFeedbackData \<times> 's)" where
  "MathFeedbackPacket_deserialize st s =
     andThen (readBooleanGroup st s) (\<lambda>(flags, s).
     (let isCorrect = flagAt flags 0;
          hasXpEarned = flagAt flags 1;
          hasTotalXP = flagAt flags 2
      in
     andThen (readUint16 st s) (\<lambda>(i, s).
     andThen (readIf hasXpEarned (readUint16 st) s) (\<lambda>(x, s).
     andThen (readIf hasTotalXP (readUint32 st) s) (\<lambda>(t, s).
     Inr (\<lparr>isCorrect = isCorrect, mf_problemId = i, xpEarned = x, totalXP = t\<rparr>, s))))))"

section \<open>Sanitising a display name\<close>

text \<open>
  Strings are the byte strings the stream carries (UTF-8). The join packet cleans the
  name it reads with \<open>.split(/<[^>]+>/g).join("").trim()\<close>.

  \<open>matchTag\<close> is the regular expression \<open><[^>]+>\<close> tried at one position, behind its
  \<open><\<close>: one or more characters other than \<open>>\<close>, then \<open>>\<close>; it returns the text behind the
  match. Splitting at every match and joining the pieces with the empty string removes
  the matches, found from left to right: \<open>removeTags\<close>.
\<close>

definition matchTag :: "string \<Rightarrow> string option" where
  "matchTag cs =
     (let body = takeWhile (\<lambda>c. c \<noteq> CHR ''>'') cs;
          rest = dropWhile (\<lambda>c. c \<noteq> CHR ''>'') cs
      in if body \<noteq> [] \<and> rest \<noteq> [] then Some (tl rest) else None)"

function removeTags :: "string \<Rightarrow> string" where
  "removeTags [] = []"
| "removeTags (c # cs) =
     (if c = CHR ''<''
      then (case matchTag cs of Some rest \<Rightarrow> removeTags rest | None \<Rightarrow> c # removeTags cs)
      else c # removeTags cs)"
  by pat_completeness auto
termination
proof (relation "measure length")
  show "wf (measure (length :: string \<Rightarrow> nat))" by simp
next
  fix c :: char and cs rest :: string
  assume "matchTag cs = Some rest"
  then have "rest = tl (dropWhile (\<lambda>c. c \<noteq> CHR ''>'') cs)"
    by (simp add: matchTag_def Let_def split: if_splits)
  moreover have "length (dropWhile (\<lambda>c. c \<noteq> CHR ''>'') cs) \<le> length cs"
    by (rule length_dropWhile_le)
  ultimately show "(rest, c # cs) \<in> measure length" by simp
qed simp_all

text \<open>
  \<open>trim\<close> removes the white space and line terminators of ECMAScript from both ends.
  \<open>whiteSpace\<close> lists them in UTF-8: TAB, LF, VT, FF, CR, SP, U+00A0, U+1680,
  U+2000 to U+200A, U+2028, U+2029, U+202F, U+205F, U+3000 and U+FEFF.
\<close>

definition whiteSpace :: "string list" where
  "whiteSpace =
     [[CHR 0x09], [CHR 0x0A], [CHR 0x0B], [CHR 0x0C], [CHR 0x0D], [CHR 0x20],
      [CHR 0xC2, CHR 0xA0],
      [CHR 0xE1, CHR 0x9A, CHR 0x80],
      [CHR 0xE2, CHR 0x80, CHR 0x80], [CHR 0xE2, CHR 0x80, CHR 0x81],
      [CHR 0xE2, CHR 0x80, CHR 0x82], [CHR 0xE2, CHR 0x80, CHR 0x83],
      [CHR 0xE2, CHR 0x80, CHR 0x84], [CHR 0xE2, CHR 0x80, CHR 0x85],
      [CHR 0xE2, CHR 0x80, CHR 0x86], [CHR 0xE2, CHR 0x80, CHR 0x87],
      [CHR 0xE2, CHR 0x80, CHR 0x88], [CHR 0xE2, CHR 0x80, CHR 0x89],
      [CHR 0xE2, CHR 0x80, CHR 0x8A],
      [CHR 0xE2, CHR 0x80, CHR 0xA8], [CHR 0xE2, CHR 0x80, CHR 0xA9],
      [CHR 0xE2, CHR 0x80, CHR 0xAF],
      [CHR 0xE2, CHR 0x81, CHR 0x9F],
      [CHR 0xE3, CHR 0x80, CHR 0x80],
      [CHR 0xEF, CHR 0xBB, CHR 0xBF]]"

definition startsWith :: "string \<Rightarrow> string \<Rightarrow> bool" where
  "startsWith s t = (take (length t) s = t)"

definition endsWith :: "string \<Rightarrow> string \<Rightarrow> bool" where
  "endsWith s t = startsWith (rev s) (rev t)"

function trimStartOf :: "string list \<Rightarrow> string \<Rightarrow> string" where
  "trimStartOf ws s =
     (case find (startsWith s) ws of
        None \<Rightarrow> s
      | Some t \<Rightarrow> if t = [] then s else trimStartOf ws (drop (length t) s))"
  by pat_completeness auto
termination
proof (relation "measure (\<lambda>(ws, s). length s)")
  show "wf (measure (\<lambda>(ws :: string list, s :: string). length s))" by simp
next
  fix ws :: "string list" and s t :: string
  assume f: "find (startsWith s) ws = Some t" and t: "t \<noteq> []"
  from f have "startsWith s t" by (auto simp: find_Some_iff)
  then have "take (length t) s = t" by (simp add: startsWith_def)
  with t have "s \<noteq> []" by auto
  with t show "((ws, drop (length t) s), (ws, s)) \<in> measure (\<lambda>(ws, s). length s)"
    by (cases s) auto
qed

definition trim :: "string \<Rightarrow> string" where
  "trim s = rev (trimStartOf (map rev whiteSpace) (rev (trimStartOf whiteSpace s)))"

definition sanitizeName :: "string \<Rightarrow> string" where
  "sanitizeName s = trim (removeTags s)"

text \<open>
  What the claims say of a sanitised name, as predicates: \<open>hasMarkup\<close> holds when some
  \<open><\<close> is followed by one or more characters other than \<open>>\<close> and then by \<open>>\<close>.
\<close>

fun hasMarkup :: "string \<Rightarrow> bool" where
  "hasMarkup [] = False"
| "hasMarkup (c # cs) = ((c = CHR ''<'' \<and> matchTag cs \<noteq> None) \<or> hasMarkup cs)"

definition isTrimmed :: "string \<Rightarrow> bool" where
  "isTrimmed s = (list_all (\<lambda>t. \<not> startsWith s t) whiteSpace \<and>
                  list_all (\<lambda>t. \<not> endsWith s t) whiteSpace)"

section \<open>The join packet\<close>

text \<open>
  \<open>JoinPacketCreation\<close> is \<open>JoinData\<close> without the protocol version, which \<open>serialize\<close>
  takes from the game's constants (\<open>src/unnamed/part_002\<close>).
\<close>

record JoinPacketCreation =
  name :: string
  isMobile :: bool
  skin :: Definition
  badge :: "Definition option"
  emotes :: "Definition option list"
  authToken :: "string option"
  studentId :: "string option"

record JoinData = JoinPacketCreation +
  protocolVersion :: int

definition JoinPacket_serialize ::
  "'s Common \<Rightarrow> 's \<Rightarrow> JoinPacketCreation \<Rightarrow> error + 's" where
  "JoinPacket_serialize cm s d =
     (let es = emotes d;
          hasBadge = (badge d \<noteq> None);
          hasAuthToken = (authToken d \<noteq> None);
          hasStudentId = (studentId d \<noteq> None)
      in
     andThen (writeBooleanGroup2 (stream cm)
                [isMobile d, hasBadge, hasAuthToken, hasStudentId,
                 elementAt es 0 \<noteq> None, elementAt es 1 \<noteq> None, elementAt es 2 \<noteq> None,
                 elementAt es 3 \<noteq> None, elementAt es 4 \<noteq> None, elementAt es 5 \<noteq> None] s) (\<lambda>s.
     andThen (writeUint16 (stream cm) (GameConstants_protocolVersion cm) s) (\<lambda>s.
     andThen (writePlayerName (stream cm) (name d) s) (\<lambda>s.
     andThen (writeToStream (Loots cm) s (skin d)) (\<lambda>s.
     andThen (case badge d of Some b \<Rightarrow> writeToStream (Badges cm) s b | None \<Rightarrow> Inr s) (\<lambda>s.
     andThen (case authToken d of Some t \<Rightarrow> writeString (stream cm) 256 t s | None \<Rightarrow> Inr s) (\<lambda>s.
     andThen (case studentId d of Some i \<Rightarrow> writeString (stream cm) 64 i s | None \<Rightarrow> Inr s) (\<lambda>s.
     forEach [0..<6]
       (\<lambda>i s. case elementAt es i of
                 None \<Rightarrow> Inr s
               | Some emote \<Rightarrow> writeToStream (Emotes cm) s emote) s))))))))"

text \<open>
  \<open>deserialize\<close> fills \<open>data.emotes = new Array(8)\<close> in its loop; the loop's state is the
  array and the stream.
\<close>

definition JoinPacket_deserialize ::
  "'s Common \<Rightarrow> 's \<Rightarrow> error + (JoinData \<times> 's)" where
  "JoinPacket_deserialize cm s =
     andThen (readBooleanGroup2 (stream cm) s) (\<lambda>(flags, s).
     (let isMobile = flagAt flags 0;
          hasBadge = flagAt flags 1;
          hasAuthToken = flagAt flags 2;
          hasStudentId = flagAt flags 3;
          emoteFlags = drop 4 flags
      in
     andThen (readUint16 (stream cm) s) (\<lambda>(version, s).
     andThen (readPlayerName (stream cm) s) (\<lambda>(n, s).
     andThen (readFromStream (Loots cm) s) (\<lambda>(sk, s).
     andThen (readIf hasBadge (readFromStream (Badges cm)) s) (\<lambda>(b, s).
     andThen (readIf hasAuthToken (readString (stream cm) 256) s) (\<lambda>(t, s).
     andThen (readIf hasStudentId (readString (stream cm) 64) s) (\<lambda>(i, s).
     andThen (forEach [0..<6]
                (\<lambda>i (es, s).
                   if \<not> flagAt emoteFlags i then Inr (es, s)
                   else andThen (readFromStream (Emotes cm) s) (\<lambda>(e, s). Inr (es[i := Some e], s)))
                (replicate 8 None, s)) (\<lambda>(es, s).
     Inr (\<lparr>name = sanitizeName n, isMobile = isMobile, skin = sk, badge = b, emotes = es,
           authToken = t, studentId = i, protocolVersion = version\<rparr>, s))))))))))"

section \<open>A stream of tagged fields\<close>

text \<open>
  An instance of the operations that keeps every call as one tagged field: the stream is
  the list of the fields written, a write appends its field, and a read takes the next
  field when it is of the kind (and, for a string, of the bound) asked for. On this
  instance the order of a packet's calls is a value, which theorems can state.
\<close>

datatype field =
    FUint8 int
  | FUint16 int
  | FUint32 int
  | FInt16 int
  | FString nat string
  | FPlayerName string
  | FBooleanGroup "bool list"
  | FBooleanGroup2 "bool list"
  | FReference string Definition

definition putField :: "field \<Rightarrow> field list \<Rightarrow> error + field list" where
  "putField f fs = Inr (fs @ [f])"

definition takeField :: "(field \<Rightarrow> 'a option) \<Rightarrow> field list \<Rightarrow> error + ('a \<times> field list)" where
  "takeField kind fs =
     (case fs of
        [] \<Rightarrow> Inl Truncated
      | f # rest \<Rightarrow> (case kind f of Some v \<Rightarrow> Inr (v, rest) | None \<Rightarrow> Inl Truncated))"

definition asUint8 :: "field \<Rightarrow> int option" where
  "asUint8 f = (case f of FUint8 v \<Rightarrow> Some v | _ \<Rightarrow> None)"

definition asUint16 :: "field \<Rightarrow> int option" where
  "asUint16 f = (case f of FUint16 v \<Rightarrow> Some v | _ \<Rightarrow> None)"

definition asUint32 :: "field \<Rightarrow> int option" where
  "asUint32 f = (case f of FUint32 v \<Rightarrow> Some v | _ \<Rightarrow> None)"

definition asInt16 :: "field \<Rightarrow> int option" where
  "asInt16 f = (case f of FInt16 v \<Rightarrow> Some v | _ \<Rightarrow> None)"

definition asString :: "nat \<Rightarrow> field \<Rightarrow> string option" where
  "asString m f = (case f of FString m' v \<Rightarrow> if m' = m then Some v else None | _ \<Rightarrow> None)"

definition asPlayerName :: "field \<Rightarrow> string option" where
  "asPlayerName f = (case f of FPlayerName v \<Rightarrow> Some v | _ \<Rightarrow> None)"

definition asBooleanGroup :: "field \<Rightarrow> bool list option" where
  "asBooleanGroup f = (case f of FBooleanGroup v \<Rightarrow> Some v | _ \<Rightarrow> None)"

definition asBooleanGroup2 :: "field \<Rightarrow> bool list option" where
  "asBooleanGroup2 f = (case f of FBooleanGroup2 v \<Rightarrow> Some v | _ \<Rightarrow> None)"

definition asReference :: "string \<Rightarrow> field \<Rightarrow> Definition option" where
  "asReference r f = (case f of FReference r' v \<Rightarrow> if r' = r then Some v else None | _ \<Rightarrow> None)"

definition fieldStream :: "field list StreamOps" where
  "fieldStream =
     \<lparr>writeUint8 = (\<lambda>v. putField (FUint8 v)),
      writeUint16 = (\<lambda>v. putField (FUint16 v)),
      writeUint32 = (\<lambda>v. putField (FUint32 v)),
      writeInt16 = (\<lambda>v. putField (FInt16 v)),
      writeString = (\<lambda>m v. putField (FString m v)),
      writePlayerName = (\<lambda>v. putField (FPlayerName v)),
      writeBooleanGroup = (\<lambda>v. putField (FBooleanGroup v)),
      writeBooleanGroup2 = (\<lambda>v. putField (FBooleanGroup2 v)),
      readUint8 = takeField asUint8,
      readUint16 = takeField asUint16,
      readUint32 = takeField asUint32,
      readInt16 = takeField asInt16,
      readString = (\<lambda>m. takeField (asString m)),
      readPlayerName = takeField asPlayerName,
      readBooleanGroup = takeField asBooleanGroup,
      readBooleanGroup2 = takeField asBooleanGroup2\<rparr>"

definition fieldRegistry :: "string \<Rightarrow> field list ObjectDefinitions" where
  "fieldRegistry r =
     \<lparr>writeToStream = (\<lambda>fs d. putField (FReference r d) fs),
      readFromStream = takeField (asReference r)\<rparr>"

definition fieldCommon :: "int \<Rightarrow> field list Common" where
  "fieldCommon version =
     \<lparr>stream = fieldStream,
      Loots = fieldRegistry ''Loots'',
      Badges = fieldRegistry ''Badges'',
      Emotes = fieldRegistry ''Emotes'',
      GameConstants_protocolVersion = version\<rparr>"

text \<open>The fields of an optional value: none when it is absent.\<close>

definition optionalField :: "('a \<Rightarrow> field) \<Rightarrow> 'a option \<Rightarrow> field list" where
  "optionalField tag x = (case x of None \<Rightarrow> [] | Some v \<Rightarrow> [tag v])"

section \<open>The byte stream of the specification\<close>

text \<open>
  The stream class and the registry class are not under \<open>src/\<close>; this section models
  them from the specification (its sections 3, 4.1, 4.2 and 7), as one instance of the
  operations the packets take. The choices the specification leaves open are fixed as
  follows: integers are big-endian; a string carries a length prefix of one byte when its
  bound is below 256, of two bytes when it is below 65536 and of four bytes otherwise; a
  boolean group holds flag \<open>i\<close> in bit \<open>i\<close> of one byte (of a 16-bit integer for the wide
  group); a registry index is an unsigned integer of 8, 16 or 32 bits, the narrowest that
  holds \<open>ceil(log2 N)\<close> bits.
\<close>

type_synonym byte = "8 word"

text \<open>
  Modelled from the spec: the stream, a buffer of fixed capacity with a cursor. \<open>buffer\<close>
  holds the bytes written so far, so its length is the high-water mark of the producer;
  \<open>index\<close> is the byte cursor of the reads. The sub-byte cursor is 0 whenever an
  operation starts or ends, a boolean group being written and read as one unit, and is
  not a field.
\<close>

record ByteStream =
  capacity :: nat
  buffer :: "byte list"
  index :: nat

text \<open>Modelled from the spec: a stream created for one encode call.\<close>

definition newStream :: "nat \<Rightarrow> ByteStream" where
  "newStream cap = \<lparr>capacity = cap, buffer = [], index = 0\<rparr>"


text \<open>
  Modelled from the spec: a write never passes the capacity, it fails with
  \<open>CapacityExceeded\<close> instead, all or nothing.
\<close>

definition writeBytes :: "byte list \<Rightarrow> ByteStream \<Rightarrow> error + ByteStream" where
  "writeBytes bs s =
     (if length (buffer s) + length bs \<le> capacity s
      then Inr (s\<lparr>buffer := buffer s @ bs\<rparr>)
      else Inl CapacityExceeded)"

text \<open>
  Modelled from the spec: a read never passes the high-water mark, it fails with
  \<open>Truncated\<close> when fewer bytes remain than it needs, all or nothing.
\<close>

definition readBytes :: "nat \<Rightarrow> ByteStream \<Rightarrow> error + (byte list \<times> ByteStream)" where
  "readBytes n s =
     (if index s + n \<le> length (buffer s)
      then Inr (take n (drop (index s) (buffer s)), s\<lparr>index := index s + n\<rparr>)
      else Inl Truncated)"

text \<open>Modelled from the spec: the fixed-width integers, big-endian, the low bits of the value.\<close>

definition encodeUint8 :: "int \<Rightarrow> byte list" where
  "encodeUint8 v = [word_of_int v]"

definition encodeUint16 :: "int \<Rightarrow> byte list" where
  "encodeUint16 v = (let w = (word_of_int v :: 16 word) in [ucast (drop_bit 8 w), ucast w])"

definition encodeUint32 :: "int \<Rightarrow> byte list" where
  "encodeUint32 v =
     (let w = (word_of_int v :: 32 word)
      in [ucast (drop_bit 24 w), ucast (drop_bit 16 w), ucast (drop_bit 8 w), ucast w])"

definition encodeInt16 :: "int \<Rightarrow> byte list" where
  "encodeInt16 v = (let w = (word_of_int v :: 16 word) in [ucast (drop_bit 8 w), ucast w])"

definition word16 :: "byte list \<Rightarrow> 16 word" where
  "word16 bs = push_bit 8 (ucast (bs ! 0)) OR ucast (bs ! 1)"

definition word32 :: "byte list \<Rightarrow> 32 word" where
  "word32 bs =
     push_bit 24 (ucast (bs ! 0)) OR push_bit 16 (ucast (bs ! 1)) OR
     push_bit 8 (ucast (bs ! 2)) OR ucast (bs ! 3)"

text \<open>Modelled from the spec: \<open>writeUint8/16/32\<close>, \<open>writeInt16\<close> and their reads.\<close>

definition ByteStream_writeUint8 :: "int \<Rightarrow> ByteStream \<Rightarrow> error + ByteStream" where
  "ByteStream_writeUint8 v = writeBytes (encodeUint8 v)"

definition ByteStream_writeUint16 :: "int \<Rightarrow> ByteStream \<Rightarrow> error + ByteStream" where
  "ByteStream_writeUint16 v = writeBytes (encodeUint16 v)"

definition ByteStream_writeUint32 :: "int \<Rightarrow> ByteStream \<Rightarrow> error + ByteStream" where
  "ByteStream_writeUint32 v = writeBytes (encodeUint32 v)"

definition ByteStream_writeInt16 :: "int \<Rightarrow> ByteStream \<Rightarrow> error + ByteStream" where
  "ByteStream_writeInt16 v = writeBytes (encodeInt16 v)"

definition ByteStream_readUint8 :: "ByteStream \<Rightarrow> error + (int \<times> ByteStream)" where
  "ByteStream_readUint8 s = andThen (readBytes 1 s) (\<lambda>(bs, s). Inr (uint (bs ! 0), s))"

definition ByteStream_readUint16 :: "ByteStream \<Rightarrow> error + (int \<times> ByteStream)" where
  "ByteStream_readUint16 s = andThen (readBytes 2 s) (\<lambda>(bs, s). Inr (uint (word16 bs), s))"

definition ByteStream_readUint32 :: "ByteStream \<Rightarrow> error + (int \<times> ByteStream)" where
  "ByteStream_readUint32 s = andThen (readBytes 4 s) (\<lambda>(bs, s). Inr (uint (word32 bs), s))"

definition ByteStream_readInt16 :: "ByteStream \<Rightarrow> error + (int \<times> ByteStream)" where
  "ByteStream_readInt16 s = andThen (readBytes 2 s) (\<lambda>(bs, s). Inr (sint (word16 bs), s))"

text \<open>
  Modelled from the spec: an unsigned integer of the narrowest of the three widths that
  holds every value up to \<open>m\<close>; the length prefix of a string bounded by \<open>m\<close>, and the
  index into a registry whose last position is \<open>m\<close>.
\<close>

definition encodeUpTo :: "nat \<Rightarrow> nat \<Rightarrow> byte list" where
  "encodeUpTo m n =
     (if m < 256 then encodeUint8 (int n)
      else if m < 65536 then encodeUint16 (int n)
      else encodeUint32 (int n))"

definition readUpTo :: "nat \<Rightarrow> ByteStream \<Rightarrow> error + (int \<times> ByteStream)" where
  "readUpTo m s =
     (if m < 256 then ByteStream_readUint8 s
      else if m < 65536 then ByteStream_readUint16 s
      else ByteStream_readUint32 s)"

text \<open>
  Modelled from the spec: \<open>writeString(maxLength, s)\<close> writes the length and up to
  \<open>maxLength\<close> raw bytes of \<open>s\<close>, truncating longer input; \<open>readString\<close> reads the
  declared length and that many bytes.
\<close>

definition byteOf :: "char \<Rightarrow> byte" where
  "byteOf c = of_char c"

definition charOf :: "byte \<Rightarrow> char" where
  "charOf b = char_of (unat b)"

definition encodeString :: "nat \<Rightarrow> string \<Rightarrow> byte list" where
  "encodeString maxLength s =
     (let bs = map byteOf (take maxLength s) in encodeUpTo maxLength (length bs) @ bs)"

definition ByteStream_writeString :: "nat \<Rightarrow> string \<Rightarrow> ByteStream \<Rightarrow> error + ByteStream" where
  "ByteStream_writeString maxLength s = writeBytes (encodeString maxLength s)"

definition ByteStream_readString :: "nat \<Rightarrow> ByteStream \<Rightarrow> error + (string \<times> ByteStream)" where
  "ByteStream_readString maxLength s =
     andThen (readUpTo maxLength s) (\<lambda>(n, s).
     andThen (readBytes (nat n) s) (\<lambda>(bs, s).
     Inr (map charOf bs, s)))"

text \<open>
  Modelled from the spec: a boolean group packs its flags, in call order, into one byte,
  and the wide group into two; the read returns all 8 (or 16) flags in the same order.
\<close>

fun packFlags :: "bool list \<Rightarrow> nat" where
  "packFlags [] = 0"
| "packFlags (b # bs) = (if b then 1 else 0) + 2 * packFlags bs"

definition encodeBooleanGroup :: "bool list \<Rightarrow> byte list" where
  "encodeBooleanGroup flags = encodeUint8 (int (packFlags (take 8 flags)))"

definition encodeBooleanGroup2 :: "bool list \<Rightarrow> byte list" where
  "encodeBooleanGroup2 flags = encodeUint16 (int (packFlags (take 16 flags)))"

definition ByteStream_writeBooleanGroup :: "bool list \<Rightarrow> ByteStream \<Rightarrow> error + ByteStream" where
  "ByteStream_writeBooleanGroup flags = writeBytes (encodeBooleanGroup flags)"

definition ByteStream_writeBooleanGroup2 :: "bool list \<Rightarrow> ByteStream \<Rightarrow> error + ByteStream" where
  "ByteStream_writeBooleanGroup2 flags = writeBytes (encodeBooleanGroup2 flags)"

definition ByteStream_readBooleanGroup :: "ByteStream \<Rightarrow> error + (bool list \<times> ByteStream)" where
  "ByteStream_readBooleanGroup s =
     andThen (readBytes 1 s) (\<lambda>(bs, s). Inr (map (bit (bs ! 0)) [0..<8], s))"

definition ByteStream_readBooleanGroup2 :: "ByteStream \<Rightarrow> error + (bool list \<times> ByteStream)" where
  "ByteStream_readBooleanGroup2 s =
     andThen (readBytes 2 s) (\<lambda>(bs, s). Inr (map (bit (word16 bs)) [0..<16], s))"

text \<open>
  Modelled from the spec: the operations of the byte stream. A display name is a string
  bounded by the game's maximal name length, a constant that is not under \<open>src/\<close> and is
  the parameter \<open>nameMaxLength\<close>.
\<close>

definition byteStream :: "nat \<Rightarrow> ByteStream StreamOps" where
  "byteStream nameMaxLength =
     \<lparr>writeUint8 = ByteStream_writeUint8,
      writeUint16 = ByteStream_writeUint16,
      writeUint32 = ByteStream_writeUint32,
      writeInt16 = ByteStream_writeInt16,
      writeString = ByteStream_writeString,
      writePlayerName = ByteStream_writeString nameMaxLength,
      writeBooleanGroup = ByteStream_writeBooleanGroup,
      writeBooleanGroup2 = ByteStream_writeBooleanGroup2,
      readUint8 = ByteStream_readUint8,
      readUint16 = ByteStream_readUint16,
      readUint32 = ByteStream_readUint32,
      readInt16 = ByteStream_readInt16,
      readString = ByteStream_readString,
      readPlayerName = ByteStream_readString nameMaxLength,
      readBooleanGroup = ByteStream_readBooleanGroup,
      readBooleanGroup2 = ByteStream_readBooleanGroup2\<rparr>"

text \<open>
  Modelled from the spec: a registry is an ordered list of definitions. \<open>writeToStream\<close>
  writes the position of the definition; a definition that is not in the registry has no
  position, and the write fails. \<open>readFromStream\<close> returns the definition at the position
  read; a position at or beyond the size is \<open>RegistryIndexOutOfRange\<close>.
\<close>

fun indexOf :: "'a list \<Rightarrow> 'a \<Rightarrow> nat option" where
  "indexOf [] x = None"
| "indexOf (y # ys) x = (if y = x then Some 0 else map_option Suc (indexOf ys x))"

definition byteRegistry :: "Definition list \<Rightarrow> ByteStream ObjectDefinitions" where
  "byteRegistry definitions =
     \<lparr>writeToStream = (\<lambda>s d.
        case indexOf definitions d of
          None \<Rightarrow> Inl RegistryIndexOutOfRange
        | Some i \<Rightarrow> writeBytes (encodeUpTo (length definitions - 1) i) s),
      readFromStream = (\<lambda>s.
        andThen (readUpTo (length definitions - 1) s) (\<lambda>(i, s).
        if nat i < length definitions then Inr (definitions ! nat i, s)
        else Inl RegistryIndexOutOfRange))\<rparr>"

text \<open>
  Modelled from the spec: what the join packet imports, over the byte stream, for given
  catalogs and constants.
\<close>

definition byteCommon ::
  "nat \<Rightarrow> int \<Rightarrow> Definition list \<Rightarrow> Definition list \<Rightarrow> Definition list \<Rightarrow> ByteStream Common" where
  "byteCommon nameMaxLength version lootDefs badgeDefs emoteDefs =
     \<lparr>stream = byteStream nameMaxLength,
      Loots = byteRegistry lootDefs,
      Badges = byteRegistry badgeDefs,
      Emotes = byteRegistry emoteDefs,
      GameConstants_protocolVersion = version\<rparr>"

text \<open>
  The stream with the bytes \<open>pre\<close> behind the cursor and the bytes \<open>post\<close> ahead of it.
\<close>

definition streamAt :: "nat \<Rightarrow> byte list \<Rightarrow> byte list \<Rightarrow> ByteStream" where
  "streamAt cap pre post = \<lparr>capacity = cap, buffer = pre @ post, index = length pre\<rparr>"

text \<open>The number of bytes between the cursor and the high-water mark.\<close>

definition remaining :: "ByteStream \<Rightarrow> nat" where
  "remaining s = length (buffer s) - index s"

section \<open>Encodings and valid payloads on the byte stream\<close>

text \<open>
  The bytes each packet's \<open>serialize\<close> leaves on the byte stream, field after field in
  the order of its calls; the theorems below show that \<open>serialize\<close> writes exactly these.
  \<open>encodeReference\<close> is the index of a definition in its registry.
\<close>

definition encodeReference :: "Definition list \<Rightarrow> Definition \<Rightarrow> byte list" where
  "encodeReference definitions d =
     (case indexOf definitions d of
        Some i \<Rightarrow> encodeUpTo (length definitions - 1) i
      | None \<Rightarrow> [])"

definition MathProblemPacket_bytes :: "MathProblemData \<Rightarrow> byte list" where
  "MathProblemPacket_bytes d =
     encodeString 32 (problem d) @ encodeString 32 (rewardType d) @
     encodeUint8 (rewardCount d) @ encodeUint16 (problemId d)"

definition MathAnswerPacket_bytes :: "MathAnswerData \<Rightarrow> byte list" where
  "MathAnswerPacket_bytes d = encodeInt16 (ma_answer d) @ encodeUint16 (ma_problemId d)"

definition MathFeedbackPacket_bytes :: "MathFeedbackData \<Rightarrow> byte list" where
  "MathFeedbackPacket_bytes d =
     encodeBooleanGroup [isCorrect d, xpEarned d \<noteq> None, totalXP d \<noteq> None] @
     encodeUint16 (mf_problemId d) @
     (case xpEarned d of Some x \<Rightarrow> encodeUint16 x | None \<Rightarrow> []) @
     (case totalXP d of Some t \<Rightarrow> encodeUint32 t | None \<Rightarrow> [])"

definition JoinPacket_bytes ::
  "nat \<Rightarrow> int \<Rightarrow> Definition list \<Rightarrow> Definition list \<Rightarrow> Definition list \<Rightarrow>
     JoinPacketCreation \<Rightarrow> byte list" where
  "JoinPacket_bytes nameMaxLength version lootDefs badgeDefs emoteDefs d =
     encodeBooleanGroup2
       [isMobile d, badge d \<noteq> None, authToken d \<noteq> None, studentId d \<noteq> None,
        elementAt (emotes d) 0 \<noteq> None, elementAt (emotes d) 1 \<noteq> None,
        elementAt (emotes d) 2 \<noteq> None, elementAt (emotes d) 3 \<noteq> None,
        elementAt (emotes d) 4 \<noteq> None, elementAt (emotes d) 5 \<noteq> None] @
     encodeUint16 version @
     encodeString nameMaxLength (name d) @
     encodeReference lootDefs (skin d) @
     (case badge d of Some b \<Rightarrow> encodeReference badgeDefs b | None \<Rightarrow> []) @
     (case authToken d of Some t \<Rightarrow> encodeString 256 t | None \<Rightarrow> []) @
     (case studentId d of Some i \<Rightarrow> encodeString 64 i | None \<Rightarrow> []) @
     concat (map (\<lambda>i. case elementAt (emotes d) i of
                        Some e \<Rightarrow> encodeReference emoteDefs e | None \<Rightarrow> []) [0..<6])"

text \<open>
  A payload is valid for the wire when every integer is in the range of its field and
  every string within the bound of its field.
\<close>

definition validMathProblem :: "MathProblemData \<Rightarrow> bool" where
  "validMathProblem d =
     (length (problem d) \<le> 32 \<and> length (rewardType d) \<le> 32 \<and>
      0 \<le> rewardCount d \<and> rewardCount d < 256 \<and> 0 \<le> problemId d \<and> problemId d < 65536)"

definition validMathAnswer :: "MathAnswerData \<Rightarrow> bool" where
  "validMathAnswer d =
     (- 32768 \<le> ma_answer d \<and> ma_answer d < 32768 \<and> 0 \<le> ma_problemId d \<and> ma_problemId d < 65536)"

definition validMathFeedback :: "MathFeedbackData \<Rightarrow> bool" where
  "validMathFeedback d =
     (0 \<le> mf_problemId d \<and> mf_problemId d < 65536 \<and>
      (case xpEarned d of None \<Rightarrow> True | Some x \<Rightarrow> 0 \<le> x \<and> x < 65536) \<and>
      (case totalXP d of None \<Rightarrow> True | Some t \<Rightarrow> 0 \<le> t \<and> t < 4294967296))"

text \<open>
  For the join packet the catalogs must hold the skin, the badge and the emotes 0 to 5 of
  the payload, and be no larger than a 32-bit index addresses; the name, the auth token
  and the student identifier must be within their bounds.
\<close>

definition knownReferences ::
  "Definition list \<Rightarrow> Definition list \<Rightarrow> Definition list \<Rightarrow> JoinPacketCreation \<Rightarrow> bool" where
  "knownReferences lootDefs badgeDefs emoteDefs d =
     (length lootDefs \<le> 4294967296 \<and> length badgeDefs \<le> 4294967296 \<and>
      length emoteDefs \<le> 4294967296 \<and>
      skin d \<in> set lootDefs \<and>
      (case badge d of Some b \<Rightarrow> b \<in> set badgeDefs | None \<Rightarrow> True) \<and>
      list_all (\<lambda>i. case elementAt (emotes d) i of Some e \<Rightarrow> e \<in> set emoteDefs | None \<Rightarrow> True)
        [0..<6])"

definition validJoin ::
  "nat \<Rightarrow> int \<Rightarrow> Definition list \<Rightarrow> Definition list \<Rightarrow> Definition list \<Rightarrow>
     JoinPacketCreation \<Rightarrow> bool" where
  "validJoin nameMaxLength version lootDefs badgeDefs emoteDefs d =
     (nameMaxLength < 4294967296 \<and> 0 \<le> version \<and> version < 65536 \<and>
      knownReferences lootDefs badgeDefs emoteDefs d \<and>
      length (name d) \<le> nameMaxLength \<and>
      (case authToken d of Some t \<Rightarrow> length t \<le> 256 | None \<Rightarrow> True) \<and>
      (case studentId d of Some i \<Rightarrow> length i \<le> 64 | None \<Rightarrow> True))"

section \<open>The math problem manager\<close>

text \<open>
  \<open>MathProblem\<close> (\<open>src/server/src/mathProblemManager.ts\<close>) has the fields of
  \<open>MathProblemData\<close> and the answer. The manager keeps the active problem of each player,
  by the player's \<open>id\<close>, and the next problem identifier.
\<close>

record MathProblem = MathProblemData +
  answer :: int

record MathProblemManager =
  activeProblem :: "int \<rightharpoonup> MathProblem"
  nextProblemId :: int

text \<open>
  Of a \<open>Player\<close> the manager uses the \<open>id\<close>, the item counts of the inventory
  (\<open>inventory.items.getItem\<close> and \<open>setItem\<close>), the flag \<open>dirty.items\<close> and \<open>sendPacket\<close>,
  whose effect is kept as the list of the packets sent.
\<close>

record Player =
  player_id :: int
  items :: "string \<Rightarrow> int"
  dirty_items :: bool
  sentPackets :: "MathProblemData list"

text \<open>
  \<open>random(min, max)\<close> is imported from \<open>@common/utils/random\<close>, which is not among the
  sources. It is a parameter here: a function of the two bounds and of the state \<open>'g\<close> of
  the generator, returning the number drawn and the next state.
\<close>

type_synonym 'g random = "int \<Rightarrow> int \<Rightarrow> 'g \<Rightarrow> int \<times> 'g"

text \<open>A number in a template literal: its decimal digits.\<close>

function digitsOf :: "nat \<Rightarrow> string" where
  "digitsOf n =
     (if n < 10 then [''0123456789'' ! n]
      else digitsOf (n div 10) @ [''0123456789'' ! (n mod 10)])"
  by pat_completeness auto
termination
  by (relation "measure (\<lambda>n. n)") auto

definition numberToString :: "int \<Rightarrow> string" where
  "numberToString i = (if i < 0 then CHR ''-'' # digitsOf (nat (- i)) else digitsOf (nat i))"

text \<open>
  The signs between the operands of a product and of a quotient, as the bytes that the
  two template literals of the source file hold.
\<close>

definition timesSign :: string where
  "timesSign = [CHR 0xE0, CHR 0xB8, CHR 0xA3, CHR 0xC2, CHR 0x97]"

definition divideSign :: string where
  "divideSign = [CHR 0xE0, CHR 0xB8, CHR 0xA3, CHR 0xE0, CHR 0xB8, CHR 0x97]"

definition consumableItems :: "string list" where
  "consumableItems =
     [''gauze'', ''medikit'', ''cola'', ''tablets'',
      ''12g'', ''556mm'', ''762mm'', ''9mm'',
      ''frag_grenade'', ''smoke_grenade'']"

text \<open>
  An element of \<open>consumableItems\<close>. Outside the array JavaScript yields \<open>undefined\<close>,
  which no case of \<open>getRewardCount\<close> matches; the empty string, which no case matches
  either, stands for it.
\<close>

definition consumableItemAt :: "int \<Rightarrow> string" where
  "consumableItemAt i =
     (if 0 \<le> i \<and> i < int (length consumableItems) then consumableItems ! nat i else [])"

definition getRewardCount :: "'g random \<Rightarrow> string \<Rightarrow> 'g \<Rightarrow> int \<times> 'g" where
  "getRewardCount random itemType g =
     (if itemType = ''gauze'' then random 2 5 g
      else if itemType = ''medikit'' then (1, g)
      else if itemType = ''cola'' then (1, g)
      else if itemType = ''tablets'' then (1, g)
      else if itemType = ''12g'' then random 5 15 g
      else if itemType = ''556mm'' \<or> itemType = ''762mm'' \<or> itemType = ''9mm'' then random 10 30 g
      else if itemType = ''frag_grenade'' \<or> itemType = ''smoke_grenade'' then random 1 2 g
      else (1, g))"

text \<open>
  \<open>generateProblem\<close> returns the problem, the manager with the problem stored for the
  player and the identifier counted on, and the generator's state.
\<close>

definition generateProblem ::
  "'g random \<Rightarrow> MathProblemManager \<Rightarrow> Player \<Rightarrow> 'g \<Rightarrow> MathProblem \<times> MathProblemManager \<times> 'g" where
  "generateProblem random this player g =
     (let (num1, g) = random 1 9 g;
          (num2, g) = random 1 9 g;
          (operation, g) = random 0 3 g;
          (problem, answer, g) =
            (if operation = 0 then
               (numberToString num1 @ '' + '' @ numberToString num2, num1 + num2, g)
             else if operation = 1 then
               (let (larger, smaller) = (if num1 \<ge> num2 then (num1, num2) else (num2, num1))
                in (numberToString larger @ '' - '' @ numberToString smaller, larger - smaller, g))
             else if operation = 2 then
               (numberToString num1 @ '' '' @ timesSign @ '' '' @ numberToString num2, num1 * num2, g)
             else if operation = 3 then
               (let (result, g) = random 1 9 g;
                    (divisor, g) = random 1 9 g;
                    dividend = result * divisor
                in (numberToString dividend @ '' '' @ divideSign @ '' '' @ numberToString divisor,
                    result, g))
             else
               (numberToString num1 @ '' + '' @ numberToString num2, num1 + num2, g));
          (r, g) = random 0 (int (length consumableItems) - 1) g;
          rewardType = consumableItemAt r;
          (rewardCount, g) = getRewardCount random rewardType g;
          problemId = nextProblemId this;
          mathProblem = \<lparr>problem = problem, rewardType = rewardType, rewardCount = rewardCount,
                         problemId = problemId, answer = answer\<rparr>
      in (mathProblem,
          this\<lparr>nextProblemId := problemId + 1,
               activeProblem := (activeProblem this)(player_id player \<mapsto> mathProblem)\<rparr>,
          g))"

text \<open>
  \<open>validateAnswer\<close> returns its result and what it leaves of the manager, the player and
  the generator.
\<close>

definition validateAnswer ::
  "'g random \<Rightarrow> MathProblemManager \<Rightarrow> Player \<Rightarrow> int \<Rightarrow> int \<Rightarrow> 'g \<Rightarrow>
     bool \<times> MathProblemManager \<times> Player \<times> 'g" where
  "validateAnswer random this player submitted submittedId g =
     (case activeProblem this (player_id player) of
        None \<Rightarrow> (False, this, player, g)
      | Some active \<Rightarrow>
          if problemId active \<noteq> submittedId then (False, this, player, g)
          else
            (let isCorrect = (answer active = submitted) in
             if isCorrect then
               (let currentAmount = items player (rewardType active);
                    player = player\<lparr>items := (items player)
                                        (rewardType active := currentAmount + rewardCount active),
                                    dirty_items := True\<rparr>;
                    this = this\<lparr>activeProblem := (activeProblem this)(player_id player := None)\<rparr>;
                    (newProblem, this, g) = generateProblem random this player g;
                    player = player\<lparr>sentPackets := sentPackets player @
                                        [\<lparr>problem = problem newProblem,
                                          rewardType = rewardType newProblem,
                                          rewardCount = rewardCount newProblem,
                                          problemId = problemId newProblem\<rparr>]\<rparr>
                in (isCorrect, this, player, g))
             else (isCorrect, this, player, g)))"

text \<open>
  A generator for the examples: it counts its draws and returns the bounds' residue of
  the count.
\<close>

definition countingRandom :: "int random" where
  "countingRandom lo hi g = (lo + g mod (hi - lo + 1), g + 1)"

definition exampleManager :: MathProblemManager where
  "exampleManager =
     \<lparr>activeProblem =
        [1 \<mapsto> \<lparr>problem = ''3 + 4'', rewardType = ''gauze'', rewardCount = 3, problemId = 7,
                answer = 7\<rparr>],
      nextProblemId = 8\<rparr>"

definition examplePlayer :: Player where
  "examplePlayer = \<lparr>player_id = 1, items = (\<lambda>i. 0), dirty_items = False, sentPackets = []\<rparr>"

definition exampleGenerated :: MathProblem where
  "exampleGenerated =
     \<lparr>problem = ''30 '' @ divideSign @ '' 6'', rewardType = ''762mm'', rewardCount = 17,
      problemId = 8, answer = 5\<rparr>"

section \<open>Example values\<close>

definition exampleJoinFields :: "field list" where
  "exampleJoinFields =
     [FBooleanGroup2 [True, False, True, False, False, True, False, False, False, False],
      FUint16 5,
      FPlayerName '' <b>Bob</b> <3 '',
      FReference ''Loots'' \<lparr>idString = ''hazel_jumpsuit''\<rparr>,
      FString 256 ''token'',
      FReference ''Emotes'' \<lparr>idString = ''happy_face''\<rparr>]"

definition exampleJoinData :: JoinData where
  "exampleJoinData =
     \<lparr>name = ''Bob <3'', isMobile = True, skin = \<lparr>idString = ''hazel_jumpsuit''\<rparr>,
      badge = None,
      emotes = [None, Some \<lparr>idString = ''happy_face''\<rparr>, None, None, None, None, None, None],
      authToken = Some ''token'', studentId = None, protocolVersion = 5\<rparr>"

definition exampleJoinCreation :: JoinPacketCreation where
  "exampleJoinCreation =
     \<lparr>name = '' <b>Bob</b> <3 '', isMobile = True, skin = \<lparr>idString = ''hazel_jumpsuit''\<rparr>,
      badge = None,
      emotes = [None, Some \<lparr>idString = ''happy_face''\<rparr>],
      authToken = Some ''token'', studentId = None\<rparr>"

definition exampleFeedbackFields :: "field list" where
  "exampleFeedbackFields = [FBooleanGroup [True, True, False], FUint16 7, FUint16 2]"

definition exampleFeedbackData :: MathFeedbackData where
  "exampleFeedbackData = \<lparr>isCorrect = True, mf_problemId = 7, xpEarned = Some 2, totalXP = None\<rparr>"

definition exampleLoots :: "Definition list" where
  "exampleLoots = [\<lparr>idString = ''hazel_jumpsuit''\<rparr>]"

definition exampleEmotes :: "Definition list" where
  "exampleEmotes = [\<lparr>idString = ''happy_face''\<rparr>]"

definition exampleJoinBytes :: "byte list" where
  "exampleJoinBytes =
     [0, 37, 0, 5, 15, 32, 60, 98, 62, 66, 111, 98, 60, 47, 98, 62, 32, 60, 51, 32,
      0, 0, 5, 116, 111, 107, 101, 110, 0]"

definition exampleProblemData :: MathProblemData where
  "exampleProblemData = \<lparr>problem = ''3 + 4'', rewardType = ''gauze'', rewardCount = 3, problemId = 7\<rparr>"

definition exampleProblemBytes :: "byte list" where
  "exampleProblemBytes = [5, 51, 32, 43, 32, 52, 5, 103, 97, 117, 122, 101, 3, 0, 7]"

definition exampleFeedbackBytes :: "byte list" where
  "exampleFeedbackBytes = [3, 0, 7, 0, 2]"

definition exampleAnswerData :: MathAnswerData where
  "exampleAnswerData = \<lparr>ma_answer = - 7, ma_problemId = 7\<rparr>"

definition exampleLongProblem :: MathProblemData where
  "exampleLongProblem =
     \<lparr>problem = ''1234567890123456789012345678901234567890'', rewardType = ''gauze'',
      rewardCount = 3, problemId = 7\<rparr>"

section \<open>Sequencing and the stream of fields\<close>

lemma andThen_Inr [simp]: "andThen (Inr x) f = f x"
  by (simp add: andThen_def)

lemma andThen_Inl [simp]: "andThen (Inl e) f = Inl e"
  by (simp add: andThen_def)

lemma andThen_Inr_iff: "andThen r f = Inr y \<longleftrightarrow> (\<exists>x. r = Inr x \<and> f x = Inr y)"
  by (cases r) simp_all

lemma takeField_iff: "takeField kind fs = Inr (v, rest) \<longleftrightarrow> (\<exists>f. fs = f # rest \<and> kind f = Some v)"
  by (auto simp: takeField_def split: list.splits option.splits)

lemma asUint8_iff [simp]: "asUint8 f = Some v \<longleftrightarrow> f = FUint8 v"
  by (cases f) (simp_all add: asUint8_def)
lemma asUint16_iff [simp]: "asUint16 f = Some v \<longleftrightarrow> f = FUint16 v"
  by (cases f) (simp_all add: asUint16_def)
lemma asUint32_iff [simp]: "asUint32 f = Some v \<longleftrightarrow> f = FUint32 v"
  by (cases f) (simp_all add: asUint32_def)
lemma asInt16_iff [simp]: "asInt16 f = Some v \<longleftrightarrow> f = FInt16 v"
  by (cases f) (simp_all add: asInt16_def)
lemma asString_iff [simp]: "asString m f = Some v \<longleftrightarrow> f = FString m v"
  by (cases f) (auto simp: asString_def)
lemma asPlayerName_iff [simp]: "asPlayerName f = Some v \<longleftrightarrow> f = FPlayerName v"
  by (cases f) (simp_all add: asPlayerName_def)
lemma asBooleanGroup_iff [simp]: "asBooleanGroup f = Some v \<longleftrightarrow> f = FBooleanGroup v"
  by (cases f) (simp_all add: asBooleanGroup_def)
lemma asBooleanGroup2_iff [simp]: "asBooleanGroup2 f = Some v \<longleftrightarrow> f = FBooleanGroup2 v"
  by (cases f) (simp_all add: asBooleanGroup2_def)
lemma asReference_iff [simp]: "asReference r f = Some v \<longleftrightarrow> f = FReference r v"
  by (cases f) (auto simp: asReference_def)

lemma takeField_eq [simp]: "takeField kind fs = Inr (v, rest) \<longleftrightarrow> (\<exists>f. fs = f # rest \<and> kind f = Some v)"
  by (rule takeField_iff)

lemma readIf_Inr_iff:
  "readIf flag rd s = Inr (x, s') \<longleftrightarrow>
     (if flag then \<exists>v. rd s = Inr (v, s') \<and> x = Some v else x = None \<and> s' = s)"
  by (auto simp: readIf_def andThen_Inr_iff)

lemma JoinPacket_deserialize_steps:
  assumes "JoinPacket_deserialize cm s = Inr (d, s')"
  obtains flags s1 s2 n s3 s4 s5 s6 s7 where
    "readBooleanGroup2 (stream cm) s = Inr (flags, s1)"
    "readUint16 (stream cm) s1 = Inr (protocolVersion d, s2)"
    "readPlayerName (stream cm) s2 = Inr (n, s3)"
    "readFromStream (Loots cm) s3 = Inr (skin d, s4)"
    "readIf (flagAt flags 1) (readFromStream (Badges cm)) s4 = Inr (badge d, s5)"
    "readIf (flagAt flags 2) (readString (stream cm) 256) s5 = Inr (authToken d, s6)"
    "readIf (flagAt flags 3) (readString (stream cm) 64) s6 = Inr (studentId d, s7)"
    "forEach [0..<6]
       (\<lambda>i (es, s).
          if \<not> flagAt (drop 4 flags) i then Inr (es, s)
          else andThen (readFromStream (Emotes cm) s) (\<lambda>(e, s). Inr (es[i := Some e], s)))
       (replicate 8 None, s7) = Inr (emotes d, s')"
    "name d = sanitizeName n"
    "isMobile d = flagAt flags 0"
  using assms unfolding JoinPacket_deserialize_def Let_def
  by (auto simp add: andThen_Inr_iff simp del: forEach.simps upt_Suc)


lemma forEach_write_fields:
  "forEach is (\<lambda>i s. case elementAt es i of None \<Rightarrow> Inr s
                       | Some e \<Rightarrow> writeToStream (fieldRegistry r) s e) fs =
     Inr (fs @ concat (map (\<lambda>i. optionalField (FReference r) (elementAt es i)) is))"
  by (induction "is" arbitrary: fs)
     (auto simp: optionalField_def fieldRegistry_def putField_def split: option.splits)

lemma forEach_read_fields:
  assumes "forEach is
             (\<lambda>i (es, s).
                if \<not> flagAt ef i then Inr (es, s)
                else andThen (readFromStream (fieldRegistry r) s) (\<lambda>(e, s). Inr (es[i := Some e], s)))
             (es0, fs) = Inr (es', rest)"
    and "distinct is" and "\<forall>i\<in>set is. i < length es0 \<and> es0 ! i = None"
  shows "fs = concat (map (\<lambda>i. optionalField (FReference r) (es' ! i)) is) @ rest \<and>
         (\<forall>i\<in>set is. (es' ! i \<noteq> None) = flagAt ef i) \<and>
         (\<forall>j. j \<notin> set is \<longrightarrow> es' ! j = es0 ! j)"
  using assms
proof (induction "is" arbitrary: es0 fs)
  case Nil
  then show ?case by simp
next
  case (Cons i "is")
  let ?body = "\<lambda>i (es, s).
                if \<not> flagAt ef i then Inr (es, s)
                else andThen (readFromStream (fieldRegistry r) s) (\<lambda>(e, s). Inr (es[i := Some e], s))"
  from Cons.prems have i: "i \<notin> set is" "i < length es0" "es0 ! i = None" and d: "distinct is"
    by auto
  show ?case
  proof (cases "flagAt ef i")
    case False
    with Cons.prems(1) have run: "forEach is ?body (es0, fs) = Inr (es', rest)" by simp
    from Cons.prems have "\<forall>i\<in>set is. i < length es0 \<and> es0 ! i = None" by simp
    from Cons.IH [OF run d this]
    have ih: "fs = concat (map (\<lambda>i. optionalField (FReference r) (es' ! i)) is) @ rest"
      "\<forall>i\<in>set is. (es' ! i \<noteq> None) = flagAt ef i" "\<forall>j. j \<notin> set is \<longrightarrow> es' ! j = es0 ! j"
      by blast+
    from ih(3) i have "es' ! i = None" by simp
    with ih False show ?thesis by (simp add: optionalField_def)
  next
    case True
    with Cons.prems(1) obtain e fs1 where
      rd: "fs = FReference r e # fs1" and
      run: "forEach is ?body (es0[i := Some e], fs1) = Inr (es', rest)"
      by (auto simp: andThen_Inr_iff fieldRegistry_def)
    from Cons.prems i have "\<forall>k\<in>set is. k < length (es0[i := Some e]) \<and> es0[i := Some e] ! k = None"
      by (auto simp: nth_list_update)
    from Cons.IH [OF run d this]
    have ih: "fs1 = concat (map (\<lambda>i. optionalField (FReference r) (es' ! i)) is) @ rest"
      "\<forall>i\<in>set is. (es' ! i \<noteq> None) = flagAt ef i"
      "\<forall>j. j \<notin> set is \<longrightarrow> es' ! j = es0[i := Some e] ! j"
      by blast+
    from ih(3) i have e: "es' ! i = Some e" by simp
    from ih(3) have "\<forall>j. j \<notin> set (i # is) \<longrightarrow> es' ! j = es0 ! j" by (auto simp: nth_list_update)
    with ih(1,2) e rd True show ?thesis by (simp add: optionalField_def)
  qed
qed

lemma forEach_read_absent:
  assumes "forEach is
             (\<lambda>i (es, s).
                if \<not> flagAt ef i then Inr (es, s)
                else andThen (rd s) (\<lambda>(e, s). Inr (es[i := Some e], s)))
             (es0, s) = Inr (es', s')"
  shows "length es' = length es0 \<and>
         (\<forall>j<length es0. (es' ! j = None) = (es0 ! j = None \<and> \<not> (j \<in> set is \<and> flagAt ef j)))"
  using assms
proof (induction "is" arbitrary: es0 s)
  case Nil
  then show ?case by simp
next
  case (Cons i "is")
  let ?body = "\<lambda>i (es, s).
                if \<not> flagAt ef i then Inr (es, s)
                else andThen (rd s) (\<lambda>(e, s). Inr (es[i := Some e], s))"
  show ?case
  proof (cases "flagAt ef i")
    case False
    with Cons.prems have "forEach is ?body (es0, s) = Inr (es', s')" by simp
    from Cons.IH [OF this] False show ?thesis by auto
  next
    case True
    with Cons.prems obtain e s1 where
      "forEach is ?body (es0[i := Some e], s1) = Inr (es', s')"
      by (auto simp: andThen_Inr_iff)
    from Cons.IH [OF this]
    have len: "length es' = length es0"
      and ih: "\<forall>j<length es0. (es' ! j = None) =
                 (es0[i := Some e] ! j = None \<and> \<not> (j \<in> set is \<and> flagAt ef j))"
      by simp_all
    have "(es' ! j = None) = (es0 ! j = None \<and> \<not> (j \<in> set (i # is) \<and> flagAt ef j))"
      if j: "j < length es0" for j
    proof (cases "j = i")
      case True
      with j ih \<open>flagAt ef i\<close> show ?thesis by simp
    next
      case False
      with j ih show ?thesis by simp
    qed
    with len show ?thesis by blast
  qed
qed

lemma MathFeedbackPacket_deserialize_steps:
  assumes "MathFeedbackPacket_deserialize st s = Inr (fb, s')"
  obtains flags s0 s1 s2 where
    "readBooleanGroup st s = Inr (flags, s0)"
    "readUint16 st s0 = Inr (mf_problemId fb, s1)"
    "readIf (flagAt flags 1) (readUint16 st) s1 = Inr (xpEarned fb, s2)"
    "readIf (flagAt flags 2) (readUint32 st) s2 = Inr (totalXP fb, s')"
    "isCorrect fb = flagAt flags 0"
  using assms unfolding MathFeedbackPacket_deserialize_def Let_def
  by (auto simp add: andThen_Inr_iff)

lemma write_optional_reference:
  "(case x of Some b \<Rightarrow> writeToStream (fieldRegistry r) fs b | None \<Rightarrow> Inr fs) =
     Inr (fs @ optionalField (FReference r) x)"
  by (cases x) (simp_all add: optionalField_def fieldRegistry_def putField_def)

lemma write_optional_string:
  "(case x of Some t \<Rightarrow> writeString fieldStream m t fs | None \<Rightarrow> Inr fs) =
     Inr (fs @ optionalField (FString m) x)"
  by (cases x) (simp_all add: optionalField_def fieldStream_def putField_def)

lemma readIf_field:
  "readIf flag (takeField kind) fs = Inr (x, rest) \<longleftrightarrow>
     (if flag then \<exists>f v. fs = f # rest \<and> kind f = Some v \<and> x = Some v
      else x = None \<and> rest = fs)"
  by (auto simp: readIf_Inr_iff)

lemma forEach_read_chain:
  assumes "forEach ixs
             (\<lambda>i (es, s).
                if \<not> flagAt ef i then Inr (es, s)
                else andThen (rd s) (\<lambda>(e, s). Inr (es[i := Some e], s)))
             (es0, s) = Inr (es', s')"
    and "distinct ixs" and "\<forall>i\<in>set ixs. i < length es0"
  shows "\<exists>ss. length ss = Suc (length ixs) \<and> ss ! 0 = s \<and> ss ! length ixs = s' \<and>
           (\<forall>j<length ixs.
              if flagAt ef (ixs ! j)
              then \<exists>e. rd (ss ! j) = Inr (e, ss ! Suc j) \<and> es' ! (ixs ! j) = Some e
              else ss ! Suc j = ss ! j \<and> es' ! (ixs ! j) = es0 ! (ixs ! j)) \<and>
           (\<forall>k. k \<notin> set ixs \<longrightarrow> es' ! k = es0 ! k) \<and> length es' = length es0"
  using assms
proof (induction ixs arbitrary: es0 s)
  case Nil
  then have "es' = es0" "s' = s" by simp_all
  then have "length [s] = Suc (length ([] :: nat list)) \<and> [s] ! 0 = s \<and>
      [s] ! length ([] :: nat list) = s' \<and>
      (\<forall>k. k \<notin> set ([] :: nat list) \<longrightarrow> es' ! k = es0 ! k) \<and> length es' = length es0"
    by simp
  then show ?case by (intro exI [of _ "[s]"]) simp
next
  case (Cons i ixs)
  let ?body = "\<lambda>i (es, s).
                if \<not> flagAt ef i then Inr (es, s)
                else andThen (rd s) (\<lambda>(e, s). Inr (es[i := Some e], s))"
  from Cons.prems have ni: "i \<notin> set ixs" and d: "distinct ixs" and il: "i < length es0"
    and rl: "\<forall>k\<in>set ixs. k < length es0"
    by simp_all
  obtain es1 s1 where
    step: "if flagAt ef i then \<exists>e. rd s = Inr (e, s1) \<and> es1 = es0[i := Some e]
           else s1 = s \<and> es1 = es0"
    and run: "forEach ixs ?body (es1, s1) = Inr (es', s')"
  proof (cases "flagAt ef i")
    case False
    with Cons.prems(1) have "forEach ixs ?body (es0, s) = Inr (es', s')" by simp
    with False that [of s es0] show ?thesis by simp
  next
    case True
    with Cons.prems(1) obtain e s1 where "rd s = Inr (e, s1)"
      "forEach ixs ?body (es0[i := Some e], s1) = Inr (es', s')"
      by (auto simp: andThen_Inr_iff)
    with True that [of s1 "es0[i := Some e]"] show ?thesis by simp
  qed
  from step have l1: "length es1 = length es0" by (auto split: if_splits)
  with rl have "\<forall>k\<in>set ixs. k < length es1" by simp
  from Cons.IH [OF run d this] obtain ss where
    ss: "length ss = Suc (length ixs)" "ss ! 0 = s1" "ss ! length ixs = s'"
    and st: "\<forall>j<length ixs.
              if flagAt ef (ixs ! j)
              then \<exists>e. rd (ss ! j) = Inr (e, ss ! Suc j) \<and> es' ! (ixs ! j) = Some e
              else ss ! Suc j = ss ! j \<and> es' ! (ixs ! j) = es1 ! (ixs ! j)"
    and un: "\<forall>k. k \<notin> set ixs \<longrightarrow> es' ! k = es1 ! k" and le: "length es' = length es1"
    by blast
  from un ni have ei: "es' ! i = es1 ! i" by simp
  have other: "es1 ! k = es0 ! k" if "k \<noteq> i" for k
    using step that by (auto split: if_splits)
  have head: "if flagAt ef i
              then \<exists>e. rd s = Inr (e, s1) \<and> es' ! i = Some e
              else s1 = s \<and> es' ! i = es0 ! i"
    using step ei il by (auto split: if_splits)
  have all: "if flagAt ef ((i # ixs) ! j)
             then \<exists>e. rd ((s # ss) ! j) = Inr (e, (s # ss) ! Suc j) \<and> es' ! ((i # ixs) ! j) = Some e
             else (s # ss) ! Suc j = (s # ss) ! j \<and> es' ! ((i # ixs) ! j) = es0 ! ((i # ixs) ! j)"
    if j: "j < length (i # ixs)" for j
  proof (cases j)
    case 0
    with head ss(2) show ?thesis by simp
  next
    case (Suc j')
    with j have j': "j' < length ixs" by simp
    then have "ixs ! j' \<in> set ixs" by simp
    with ni have "ixs ! j' \<noteq> i" by auto
    from other [OF this] st j' Suc show ?thesis by simp
  qed
  have un': "\<forall>k. k \<notin> set (i # ixs) \<longrightarrow> es' ! k = es0 ! k"
    using un other by simp
  have A: "\<forall>j<length (i # ixs).
             if flagAt ef ((i # ixs) ! j)
             then \<exists>e. rd ((s # ss) ! j) = Inr (e, (s # ss) ! Suc j) \<and> es' ! ((i # ixs) ! j) = Some e
             else (s # ss) ! Suc j = (s # ss) ! j \<and> es' ! ((i # ixs) ! j) = es0 ! ((i # ixs) ! j)"
    using all by blast
  have L: "length (s # ss) = Suc (length (i # ixs))" using ss by simp
  have Z: "(s # ss) ! 0 = s" by simp
  have E: "(s # ss) ! length (i # ixs) = s'" using ss by simp
  have LE: "length es' = length es0" using le l1 by simp
  from L Z E A un' LE show ?case by (intro exI [of _ "s # ss"] conjI)
qed

section \<open>Sanitising removes markup and outer white space\<close>

lemma takeWhile_upto: "a \<notin> set xs \<Longrightarrow> takeWhile (\<lambda>c. c \<noteq> a) (xs @ a # ys) = xs"
  by (induction xs) auto

lemma dropWhile_upto: "a \<notin> set xs \<Longrightarrow> dropWhile (\<lambda>c. c \<noteq> a) (xs @ a # ys) = a # ys"
  by (induction xs) auto

lemma matchTag_iff:
  "matchTag cs \<noteq> None \<longleftrightarrow> (\<exists>mid post. cs = mid @ CHR ''>'' # post \<and> mid \<noteq> [] \<and> CHR ''>'' \<notin> set mid)"
proof
  assume m: "matchTag cs \<noteq> None"
  let ?P = "\<lambda>c. c \<noteq> CHR ''>''"
  from m have b: "takeWhile ?P cs \<noteq> []" and r: "dropWhile ?P cs \<noteq> []"
    by (auto simp: matchTag_def Let_def split: if_splits)
  from r have "hd (dropWhile ?P cs) = CHR ''>''" using hd_dropWhile [of ?P cs] by simp
  with r obtain post where d: "dropWhile ?P cs = CHR ''>'' # post"
    by (cases "dropWhile ?P cs") auto
  have "cs = takeWhile ?P cs @ dropWhile ?P cs" by simp
  then have "cs = takeWhile ?P cs @ CHR ''>'' # post" by (simp only: d)
  moreover have "CHR ''>'' \<notin> set (takeWhile ?P cs)" by (auto dest: set_takeWhileD)
  ultimately show "\<exists>mid post. cs = mid @ CHR ''>'' # post \<and> mid \<noteq> [] \<and> CHR ''>'' \<notin> set mid"
    using b by blast
next
  assume "\<exists>mid post. cs = mid @ CHR ''>'' # post \<and> mid \<noteq> [] \<and> CHR ''>'' \<notin> set mid"
  then obtain mid post where cs: "cs = mid @ CHR ''>'' # post" and n: "mid \<noteq> []" and f: "CHR ''>'' \<notin> set mid"
    by blast
  from f have "takeWhile (\<lambda>c. c \<noteq> CHR ''>'') cs = mid" "dropWhile (\<lambda>c. c \<noteq> CHR ''>'') cs = CHR ''>'' # post"
    unfolding cs by (simp_all add: takeWhile_upto dropWhile_upto)
  with n show "matchTag cs \<noteq> None" by (simp add: matchTag_def)
qed

lemma hasMarkup_iff:
  "hasMarkup s \<longleftrightarrow>
     (\<exists>pre mid post. s = pre @ CHR ''<'' # mid @ CHR ''>'' # post \<and> mid \<noteq> [] \<and> CHR ''>'' \<notin> set mid)"
proof (induction s)
  case Nil
  then show ?case by simp
next
  case (Cons c cs)
  show ?case
  proof
    assume "hasMarkup (c # cs)"
    then consider "c = CHR ''<''" "matchTag cs \<noteq> None" | "hasMarkup cs" by auto
    then show "\<exists>pre mid post. c # cs = pre @ CHR ''<'' # mid @ CHR ''>'' # post \<and> mid \<noteq> [] \<and> CHR ''>'' \<notin> set mid"
    proof cases
      case 1
      then obtain mid post where "cs = mid @ CHR ''>'' # post" "mid \<noteq> []" "CHR ''>'' \<notin> set mid"
        using matchTag_iff by blast
      with 1 have "c # cs = [] @ CHR ''<'' # mid @ CHR ''>'' # post \<and> mid \<noteq> [] \<and> CHR ''>'' \<notin> set mid" by simp
      then show ?thesis by blast
    next
      case 2
      with Cons.IH obtain pre mid post where "cs = pre @ CHR ''<'' # mid @ CHR ''>'' # post" "mid \<noteq> []" "CHR ''>'' \<notin> set mid"
        by blast
      then have "c # cs = (c # pre) @ CHR ''<'' # mid @ CHR ''>'' # post \<and> mid \<noteq> [] \<and> CHR ''>'' \<notin> set mid" by simp
      then show ?thesis by blast
    qed
  next
    assume "\<exists>pre mid post. c # cs = pre @ CHR ''<'' # mid @ CHR ''>'' # post \<and> mid \<noteq> [] \<and> CHR ''>'' \<notin> set mid"
    then obtain pre mid post where e: "c # cs = pre @ CHR ''<'' # mid @ CHR ''>'' # post" and n: "mid \<noteq> []" and f: "CHR ''>'' \<notin> set mid"
      by blast
    show "hasMarkup (c # cs)"
    proof (cases pre)
      case Nil
      with e have "c = CHR ''<''" "cs = mid @ CHR ''>'' # post" by simp_all
      with n f have "c = CHR ''<''" "matchTag cs \<noteq> None" using matchTag_iff by blast+
      then show ?thesis by simp
    next
      case (Cons p pre')
      with e have "cs = pre' @ CHR ''<'' # mid @ CHR ''>'' # post" by simp
      with n f Cons.IH have "hasMarkup cs" by blast
      then show ?thesis by simp
    qed
  qed
qed

lemma hasMarkup_embedded: "hasMarkup s \<Longrightarrow> hasMarkup (a @ s @ b)"
proof -
  assume "hasMarkup s"
  then obtain pre mid post where "s = pre @ CHR ''<'' # mid @ CHR ''>'' # post" "mid \<noteq> []" "CHR ''>'' \<notin> set mid"
    using hasMarkup_iff by blast
  then have "a @ s @ b = (a @ pre) @ CHR ''<'' # mid @ CHR ''>'' # (post @ b) \<and> mid \<noteq> [] \<and> CHR ''>'' \<notin> set mid"
    by simp
  then show ?thesis unfolding hasMarkup_iff [of "a @ s @ b"] by blast
qed

lemma set_tl_subset: "set (tl xs) \<subseteq> set xs"
  by (cases xs) auto

lemma matchTag_Some_set: "matchTag cs = Some rest \<Longrightarrow> set rest \<subseteq> set cs"
proof -
  assume "matchTag cs = Some rest"
  then have r: "rest = tl (dropWhile (\<lambda>c. c \<noteq> CHR ''>'') cs)"
    by (simp add: matchTag_def Let_def split: if_splits)
  have "set rest \<subseteq> set (dropWhile (\<lambda>c. c \<noteq> CHR ''>'') cs)"
    unfolding r by (rule set_tl_subset)
  moreover have "set (dropWhile (\<lambda>c. c \<noteq> CHR ''>'') cs) \<subseteq> set cs"
    by (auto dest: set_dropWhileD)
  ultimately show ?thesis by blast
qed

lemma set_removeTags: "set (removeTags s) \<subseteq> set s"
proof (induction s rule: removeTags.induct)
  case 1
  then show ?case by simp
next
  case (2 c cs)
  show ?case
  proof (cases "c = CHR ''<''")
    case False
    with 2 show ?thesis by auto
  next
    case True
    show ?thesis
    proof (cases "matchTag cs")
      case None
      with True 2 show ?thesis by auto
    next
      case (Some rest)
      with True 2 have "set (removeTags rest) \<subseteq> set rest" by simp
      with matchTag_Some_set [OF Some] have "set (removeTags rest) \<subseteq> set cs" by blast
      with True Some show ?thesis by auto
    qed
  qed
qed

lemma matchTag_removeTags_None: "matchTag cs = None \<Longrightarrow> matchTag (removeTags cs) = None"
proof -
  assume m: "matchTag cs = None"
  let ?P = "\<lambda>c. c \<noteq> CHR ''>''"
  from m consider "takeWhile ?P cs = []" | "dropWhile ?P cs = []"
    by (auto simp: matchTag_def Let_def split: if_splits)
  then show ?thesis
  proof cases
    case 1
    then have "cs = [] \<or> (\<exists>cs'. cs = CHR ''>'' # cs')"
      by (cases cs) (auto split: if_splits)
    then show ?thesis by (auto simp: matchTag_def)
  next
    case 2
    then have "CHR ''>'' \<notin> set cs" by (auto simp: dropWhile_eq_Nil_conv)
    with set_removeTags [of cs] have "CHR ''>'' \<notin> set (removeTags cs)" by blast
    then have "dropWhile ?P (removeTags cs) = []" by (auto simp: dropWhile_eq_Nil_conv)
    then show ?thesis by (simp add: matchTag_def)
  qed
qed

lemma removeTags_clean: "\<not> hasMarkup (removeTags s)"
proof (induction s rule: removeTags.induct)
  case 1
  then show ?case by simp
next
  case (2 c cs)
  show ?case
  proof (cases "c = CHR ''<''")
    case False
    with 2 show ?thesis by simp
  next
    case True
    show ?thesis
    proof (cases "matchTag cs")
      case None
      with True 2 matchTag_removeTags_None [OF None] show ?thesis by simp
    next
      case (Some rest)
      with True 2 show ?thesis by simp
    qed
  qed
qed


lemma trimStartOf_suffix: "\<exists>a. s = a @ trimStartOf ws s"
proof (induction ws s rule: trimStartOf.induct)
  case (1 ws s)
  show ?case
  proof (cases "find (startsWith s) ws")
    case None
    then have "trimStartOf ws s = s" by simp
    then show ?thesis by simp
  next
    case (Some t)
    show ?thesis
    proof (cases "t = []")
      case True
      with Some have "trimStartOf ws s = s" by simp
      then show ?thesis by simp
    next
      case False
      with Some 1 obtain a where a: "drop (length t) s = a @ trimStartOf ws (drop (length t) s)"
        by blast
      from Some False have "trimStartOf ws s = trimStartOf ws (drop (length t) s)" by simp
      with a have "s = (take (length t) s @ a) @ trimStartOf ws s"
        by (metis append_assoc append_take_drop_id)
      then show ?thesis by blast
    qed
  qed
qed

lemma trimStartOf_clean:
  "[] \<notin> set ws \<Longrightarrow> t \<in> set ws \<Longrightarrow> \<not> startsWith (trimStartOf ws s) t"
proof (induction ws s rule: trimStartOf.induct)
  case (1 ws s)
  show ?case
  proof (cases "find (startsWith s) ws")
    case None
    then have "trimStartOf ws s = s" by simp
    moreover from None "1.prems" have "\<not> startsWith s t" by (auto simp: find_None_iff)
    ultimately show ?thesis by simp
  next
    case (Some u)
    then have "u \<in> set ws" by (auto simp: find_Some_iff)
    with "1.prems" have u: "u \<noteq> []" by auto
    with Some have "trimStartOf ws s = trimStartOf ws (drop (length u) s)" by simp
    moreover from "1.IH" [OF Some u "1.prems"] have "\<not> startsWith (trimStartOf ws (drop (length u) s)) t" .
    ultimately show ?thesis by simp
  qed
qed

lemma startsWith_append: "startsWith a t \<Longrightarrow> startsWith (a @ b) t"
proof -
  assume "startsWith a t"
  then have t: "take (length t) a = t" by (simp add: startsWith_def)
  have "length (take (length t) a) = min (length a) (length t)" by simp
  with t have "length t \<le> length a" by simp
  with t show ?thesis by (simp add: startsWith_def)
qed

lemma trim_embedded: "\<exists>a b. s = a @ trim s @ b"
proof -
  obtain a where a: "s = a @ trimStartOf whiteSpace s"
    using trimStartOf_suffix by blast
  obtain b where b: "rev (trimStartOf whiteSpace s) = b @ trimStartOf (map rev whiteSpace) (rev (trimStartOf whiteSpace s))"
    using trimStartOf_suffix by blast
  from b have "trimStartOf whiteSpace s = trim s @ rev b"
    unfolding trim_def by (metis rev_append rev_rev_ident)
  with a have "s = a @ trim s @ rev b" by simp
  then show ?thesis by blast
qed

lemma whiteSpace_nonempty: "[] \<notin> set whiteSpace"
  by (simp add: whiteSpace_def)

lemma trim_isTrimmed: "isTrimmed (trim s)"
proof -
  have e: "\<not> endsWith (trim s) t" if "t \<in> set whiteSpace" for t
  proof -
    from that have "rev t \<in> set (map rev whiteSpace)" by simp
    moreover have "[] \<notin> set (map rev whiteSpace)" using whiteSpace_nonempty by auto
    ultimately show ?thesis
      unfolding endsWith_def trim_def rev_rev_ident by (rule trimStartOf_clean [rotated])
  qed
  have b: "\<not> startsWith (trim s) t" if "t \<in> set whiteSpace" for t
  proof
    assume st: "startsWith (trim s) t"
    obtain b where b: "rev (trimStartOf whiteSpace s) = b @ trimStartOf (map rev whiteSpace) (rev (trimStartOf whiteSpace s))"
      using trimStartOf_suffix by blast
    then have "trimStartOf whiteSpace s = trim s @ rev b"
      unfolding trim_def by (metis rev_append rev_rev_ident)
    with startsWith_append [OF st, of "rev b"] have "startsWith (trimStartOf whiteSpace s) t" by simp
    with trimStartOf_clean [OF whiteSpace_nonempty that] show False by blast
  qed
  from e b show ?thesis by (simp add: isTrimmed_def list_all_iff)
qed

lemma sanitizeName_clean: "\<not> hasMarkup (sanitizeName s)"
proof
  assume h: "hasMarkup (sanitizeName s)"
  obtain a b where "removeTags s = a @ trim (removeTags s) @ b"
    using trim_embedded by blast
  with hasMarkup_embedded [OF h [unfolded sanitizeName_def], of a b] have "hasMarkup (removeTags s)"
    by simp
  with removeTags_clean show False by blast
qed


section \<open>The example streams decode\<close>

lemma example_join_decodes:
  "JoinPacket_deserialize (fieldCommon 5) exampleJoinFields = Inr (exampleJoinData, [])"
  by code_simp

lemma example_feedback_decodes:
  "MathFeedbackPacket_deserialize fieldStream exampleFeedbackFields = Inr (exampleFeedbackData, [])"
  by code_simp

lemma example_join_encodes:
  "JoinPacket_serialize (fieldCommon 5) [] exampleJoinCreation = Inr exampleJoinFields"
  by code_simp

section \<open>The generated problem\<close>

lemma product_of_digits:
  fixes a b :: int
  assumes "1 \<le> a" "a \<le> 9" "1 \<le> b" "b \<le> 9"
  shows "0 \<le> a * b" "a * b \<le> 81"
proof -
  from assms show "0 \<le> a * b" by simp
  from assms have "a * b \<le> 9 * 9" by (intro mult_mono) simp_all
  then show "a * b \<le> 81" by simp
qed

lemma int16_holds:
  fixes a :: int
  assumes "- 32768 \<le> a" "a \<le> 32767"
  shows "sint (word_of_int a :: 16 word) = a"
  using assms by (simp add: sint_sbintrunc' signed_take_bit_int_eq_self)

lemma generateProblem_shape:
  assumes r: "\<And>lo hi g. lo \<le> hi \<Longrightarrow> lo \<le> fst (random lo hi g) \<and> fst (random lo hi g) \<le> hi"
    and gen: "generateProblem random this player g = (p, this', g')"
  shows "\<exists>a b. 1 \<le> a \<and> a \<le> 9 \<and> 1 \<le> b \<and> b \<le> 9 \<and>
           (problem p = numberToString a @ '' + '' @ numberToString b \<and> answer p = a + b \<or>
            problem p = numberToString a @ '' - '' @ numberToString b \<and> b \<le> a \<and> answer p = a - b \<or>
            problem p = numberToString a @ '' '' @ timesSign @ '' '' @ numberToString b \<and>
              answer p = a * b \<or>
            problem p = numberToString (a * b) @ '' '' @ divideSign @ '' '' @ numberToString b \<and>
              answer p = a)"
proof -
  obtain num1 g1 where n1: "random 1 9 g = (num1, g1)" by (cases "random 1 9 g")
  obtain num2 g2 where n2: "random 1 9 g1 = (num2, g2)" by (cases "random 1 9 g1")
  obtain operation g3 where op: "random 0 3 g2 = (operation, g3)" by (cases "random 0 3 g2")
  obtain result g4 where re: "random 1 9 g3 = (result, g4)" by (cases "random 1 9 g3")
  obtain divisor g5 where dv: "random 1 9 g4 = (divisor, g5)" by (cases "random 1 9 g4")
  from r [of 1 9 g] n1 have b1: "1 \<le> num1" "num1 \<le> 9" by simp_all
  from r [of 1 9 g1] n2 have b2: "1 \<le> num2" "num2 \<le> 9" by simp_all
  from r [of 1 9 g3] re have b3: "1 \<le> result" "result \<le> 9" by simp_all
  from r [of 1 9 g4] dv have b4: "1 \<le> divisor" "divisor \<le> 9" by simp_all
  have pa: "(problem p, answer p) =
       (if operation = 0 then (numberToString num1 @ '' + '' @ numberToString num2, num1 + num2)
        else if operation = 1 then
          (if num1 \<ge> num2 then (numberToString num1 @ '' - '' @ numberToString num2, num1 - num2)
           else (numberToString num2 @ '' - '' @ numberToString num1, num2 - num1))
        else if operation = 2 then
          (numberToString num1 @ '' '' @ timesSign @ '' '' @ numberToString num2, num1 * num2)
        else if operation = 3 then
          (numberToString (result * divisor) @ '' '' @ divideSign @ '' '' @ numberToString divisor, result)
        else (numberToString num1 @ '' + '' @ numberToString num2, num1 + num2))"
  proof -
    have "p = fst (generateProblem random this player g)" by (simp add: gen)
    then show ?thesis
      by (simp add: generateProblem_def n1 n2 op re dv Let_def split_beta)
  qed
  then consider
      (add) "problem p = numberToString num1 @ '' + '' @ numberToString num2" "answer p = num1 + num2"
    | (sub1) "num2 \<le> num1" "problem p = numberToString num1 @ '' - '' @ numberToString num2"
        "answer p = num1 - num2"
    | (sub2) "num1 \<le> num2" "problem p = numberToString num2 @ '' - '' @ numberToString num1"
        "answer p = num2 - num1"
    | (mul) "problem p = numberToString num1 @ '' '' @ timesSign @ '' '' @ numberToString num2"
        "answer p = num1 * num2"
    | (quot) "problem p = numberToString (result * divisor) @ '' '' @ divideSign @ '' '' @
                numberToString divisor" "answer p = result"
    by (auto split: if_splits)
  then show ?thesis
  proof cases
    case add
    with b1 b2 show ?thesis by blast
  next
    case sub1
    with b1 b2 show ?thesis by blast
  next
    case sub2
    with b1 b2 show ?thesis by blast
  next
    case mul
    with b1 b2 show ?thesis by blast
  next
    case quot
    with b3 b4 show ?thesis by blast
  qed
qed

lemma countingRandom_in_bounds:
  "\<forall>lo hi g. lo \<le> hi \<longrightarrow> lo \<le> fst (countingRandom lo hi g) \<and> fst (countingRandom lo hi g) \<le> hi"
proof (intro allI impI)
  fix lo hi g :: int
  assume "lo \<le> hi"
  then have m: "0 < hi - lo + 1" by simp
  have "0 \<le> g mod (hi - lo + 1)" using m by (rule pos_mod_sign)
  moreover have "g mod (hi - lo + 1) < hi - lo + 1" using m by (rule pos_mod_bound)
  ultimately show "lo \<le> fst (countingRandom lo hi g) \<and> fst (countingRandom lo hi g) \<le> hi"
    unfolding countingRandom_def fst_conv by linarith
qed

lemma example_generates:
  "generateProblem countingRandom exampleManager examplePlayer 1 =
     (exampleGenerated,
      exampleManager\<lparr>nextProblemId := 9,
                      activeProblem := (activeProblem exampleManager)(1 \<mapsto> exampleGenerated)\<rparr>,
      8)"
  by (simp add: generateProblem_def countingRandom_def exampleManager_def examplePlayer_def
        exampleGenerated_def consumableItems_def consumableItemAt_def getRewardCount_def
        numberToString_def Let_def)

section \<open>The byte stream: what is written is read back\<close>

lemma writeBytes_append: "andThen (writeBytes a s) (writeBytes b) = writeBytes (a @ b) s"
  by (auto simp: writeBytes_def)

lemma andThen_return [simp]: "andThen r Inr = r"
  by (cases r) simp_all

lemma writeBytes_fuse:
  "andThen (writeBytes a s) (\<lambda>s. andThen (writeBytes b s) k) = andThen (writeBytes (a @ b) s) k"
  by (auto simp: writeBytes_def)

lemma writeBytes_fuse_option:
  "andThen (writeBytes a s) (\<lambda>s. andThen (case x of Some v \<Rightarrow> writeBytes (enc v) s | None \<Rightarrow> Inr s) k) =
     andThen (writeBytes (a @ (case x of Some v \<Rightarrow> enc v | None \<Rightarrow> [])) s) k"
  by (cases x) (auto simp: writeBytes_def)

lemma writeBytes_append_option:
  "andThen (writeBytes a s) (\<lambda>s. case x of Some v \<Rightarrow> writeBytes (enc v) s | None \<Rightarrow> Inr s) =
     writeBytes (a @ (case x of Some v \<Rightarrow> enc v | None \<Rightarrow> [])) s"
  by (cases x) (auto simp: writeBytes_def)

lemma writeBytes_newStream:
  "length bs \<le> cap \<Longrightarrow> writeBytes bs (newStream cap) = Inr (streamAt cap [] bs)"
  by (simp add: writeBytes_def newStream_def streamAt_def)

lemma readBytes_at:
  "length bs = n \<Longrightarrow> readBytes n (streamAt cap pre (bs @ post)) = Inr (bs, streamAt cap (pre @ bs) post)"
  by (simp add: readBytes_def streamAt_def)

lemma length_encode [simp]:
  "length (encodeUint8 v) = 1" "length (encodeUint16 v) = 2" "length (encodeUint32 v) = 4"
  "length (encodeInt16 v) = 2"
  by (simp_all add: encodeUint8_def encodeUint16_def encodeUint32_def encodeInt16_def Let_def)

lemma word16_encode: "word16 (encodeUint16 v) = word_of_int v"
  unfolding word16_def encodeUint16_def Let_def
  by (rule bit_word_eqI) (auto simp add: bit_simps)

lemma word16_encodeInt: "word16 (encodeInt16 v) = word_of_int v"
  unfolding word16_def encodeInt16_def Let_def
  by (rule bit_word_eqI) (auto simp add: bit_simps)

lemma word32_encode: "word32 (encodeUint32 v) = word_of_int v"
  unfolding word32_def encodeUint32_def Let_def
  by (rule bit_word_eqI) (auto simp add: bit_simps)

lemma readUint8_at:
  "ByteStream_readUint8 (streamAt cap pre (encodeUint8 v @ post)) =
     Inr (v mod 256, streamAt cap (pre @ encodeUint8 v) post)"
proof -
  have "uint (encodeUint8 v ! 0) = v mod 256"
    by (simp add: encodeUint8_def uint_word_of_int take_bit_eq_mod)
  then show ?thesis
    by (simp add: ByteStream_readUint8_def readBytes_at)
qed

lemma readUint16_at:
  "ByteStream_readUint16 (streamAt cap pre (encodeUint16 v @ post)) =
     Inr (v mod 65536, streamAt cap (pre @ encodeUint16 v) post)"
proof -
  have "uint (word16 (encodeUint16 v)) = v mod 65536"
    by (simp add: word16_encode uint_word_of_int take_bit_eq_mod)
  then show ?thesis
    by (simp add: ByteStream_readUint16_def readBytes_at)
qed

lemma readUint32_at:
  "ByteStream_readUint32 (streamAt cap pre (encodeUint32 v @ post)) =
     Inr (v mod 4294967296, streamAt cap (pre @ encodeUint32 v) post)"
proof -
  have "uint (word32 (encodeUint32 v)) = v mod 4294967296"
    by (simp add: word32_encode uint_word_of_int take_bit_eq_mod)
  then show ?thesis
    by (simp add: ByteStream_readUint32_def readBytes_at)
qed

lemma readInt16_at:
  "ByteStream_readInt16 (streamAt cap pre (encodeInt16 v @ post)) =
     Inr (sint (word_of_int v :: 16 word), streamAt cap (pre @ encodeInt16 v) post)"
  by (simp add: ByteStream_readInt16_def readBytes_at word16_encodeInt)

lemma length_encodeUpTo:
  "length (encodeUpTo m n) = (if m < 256 then 1 else if m < 65536 then 2 else 4)"
  by (simp add: encodeUpTo_def)

lemma readUpTo_at:
  assumes "n \<le> m" "m < 4294967296"
  shows "readUpTo m (streamAt cap pre (encodeUpTo m n @ post)) =
           Inr (int n, streamAt cap (pre @ encodeUpTo m n) post)"
  using assms
  by (auto simp: readUpTo_def encodeUpTo_def readUint8_at readUint16_at readUint32_at)

lemma charOf_byteOf [simp]: "charOf (byteOf c) = c"
proof -
  have "(of_char c :: byte) = of_nat (of_char c)" by (simp add: of_char_def)
  moreover have "(of_char c :: nat) < 256" by simp
  ultimately have "unat (of_char c :: byte) = of_char c"
    by (simp add: unat_of_nat take_bit_nat_eq_self)
  then show ?thesis by (simp add: charOf_def byteOf_def)
qed

lemma readString_at:
  assumes "m < 4294967296"
  shows "ByteStream_readString m (streamAt cap pre (encodeString m str @ post)) =
           Inr (take m str, streamAt cap (pre @ encodeString m str) post)"
proof -
  let ?bs = "map byteOf (take m str)"
  have l: "length ?bs \<le> m" by simp
  have e: "encodeString m str @ post = encodeUpTo m (length ?bs) @ ?bs @ post"
    by (simp add: encodeString_def Let_def)
  have "map charOf ?bs = take m str" by (simp add: comp_def)
  then show ?thesis
    unfolding ByteStream_readString_def e
    by (simp add: readUpTo_at [OF l assms] readBytes_at encodeString_def Let_def del: length_map)
qed

lemma bit_packFlags: "bit (packFlags fs) i = flagAt fs i"
proof (induction fs arbitrary: i)
  case Nil
  then show ?case by (simp add: flagAt_def)
next
  case (Cons b bs)
  show ?case
  proof (cases i)
    case 0
    then show ?thesis by (simp add: flagAt_def bit_0)
  next
    case (Suc j)
    have "(of_bool b + 2 * packFlags bs) div 2 = packFlags bs" by simp
    then have "bit (packFlags (b # bs)) (Suc j) = bit (packFlags bs) j"
      by (simp add: bit_Suc of_bool_def)
    with Cons.IH [of j] Suc show ?thesis by (simp add: flagAt_def)
  qed
qed

lemma flagAt_take: "flagAt (take n fs) i = (i < n \<and> flagAt fs i)"
  by (auto simp: flagAt_def)

lemma flagAt_map_upt: "flagAt (map f [0..<n]) i = (i < n \<and> f i)"
  by (auto simp: flagAt_def)

lemma readBooleanGroup_at:
  "\<exists>flags. ByteStream_readBooleanGroup (streamAt cap pre (encodeBooleanGroup fs @ post)) =
             Inr (flags, streamAt cap (pre @ encodeBooleanGroup fs) post) \<and>
           (\<forall>i. flagAt flags i = (i < 8 \<and> flagAt fs i))"
proof -
  let ?b = "encodeBooleanGroup fs ! 0"
  have "bit ?b i = (i < 8 \<and> flagAt fs i)" for i
    by (auto simp: encodeBooleanGroup_def encodeUint8_def bit_simps bit_packFlags flagAt_take)
  then have "flagAt (map (bit ?b) [0..<8]) i = (i < 8 \<and> flagAt fs i)" for i
    by (auto simp: flagAt_map_upt)
  moreover have "length (encodeBooleanGroup fs) = 1" by (simp add: encodeBooleanGroup_def)
  ultimately show ?thesis
    by (simp add: ByteStream_readBooleanGroup_def readBytes_at)
qed

lemma readBooleanGroup2_at:
  "\<exists>flags. ByteStream_readBooleanGroup2 (streamAt cap pre (encodeBooleanGroup2 fs @ post)) =
             Inr (flags, streamAt cap (pre @ encodeBooleanGroup2 fs) post) \<and>
           (\<forall>i. flagAt flags i = (i < 16 \<and> flagAt fs i))"
proof -
  let ?w = "word16 (encodeBooleanGroup2 fs)"
  have "bit ?w i = (i < 16 \<and> flagAt fs i)" for i
    by (auto simp: encodeBooleanGroup2_def word16_encode bit_simps bit_packFlags flagAt_take)
  then have "flagAt (map (bit ?w) [0..<16]) i = (i < 16 \<and> flagAt fs i)" for i
    by (auto simp: flagAt_map_upt)
  moreover have "length (encodeBooleanGroup2 fs) = 2" by (simp add: encodeBooleanGroup2_def)
  ultimately show ?thesis
    by (simp add: ByteStream_readBooleanGroup2_def readBytes_at)
qed

lemma flagAt_Cons_0: "flagAt (x # xs) 0 = x"
  by (simp add: flagAt_def)

lemma flagAt_Cons_Suc: "flagAt (x # xs) (Suc n) = flagAt xs n"
  by (simp add: flagAt_def)

lemma flagAt_Nil: "flagAt [] n = False"
  by (simp add: flagAt_def)

lemma byteStream_sel [simp]:
  "writeUint8 (byteStream nm) = ByteStream_writeUint8"
  "writeUint16 (byteStream nm) = ByteStream_writeUint16"
  "writeUint32 (byteStream nm) = ByteStream_writeUint32"
  "writeInt16 (byteStream nm) = ByteStream_writeInt16"
  "writeString (byteStream nm) = ByteStream_writeString"
  "writePlayerName (byteStream nm) = ByteStream_writeString nm"
  "writeBooleanGroup (byteStream nm) = ByteStream_writeBooleanGroup"
  "writeBooleanGroup2 (byteStream nm) = ByteStream_writeBooleanGroup2"
  "readUint8 (byteStream nm) = ByteStream_readUint8"
  "readUint16 (byteStream nm) = ByteStream_readUint16"
  "readUint32 (byteStream nm) = ByteStream_readUint32"
  "readInt16 (byteStream nm) = ByteStream_readInt16"
  "readString (byteStream nm) = ByteStream_readString"
  "readPlayerName (byteStream nm) = ByteStream_readString nm"
  "readBooleanGroup (byteStream nm) = ByteStream_readBooleanGroup"
  "readBooleanGroup2 (byteStream nm) = ByteStream_readBooleanGroup2"
  by (simp_all add: byteStream_def)

lemmas ByteStream_write_defs =
  ByteStream_writeUint8_def ByteStream_writeUint16_def ByteStream_writeUint32_def
  ByteStream_writeInt16_def ByteStream_writeString_def ByteStream_writeBooleanGroup_def
  ByteStream_writeBooleanGroup2_def

lemma MathProblemPacket_serialize_bytes:
  "MathProblemPacket_serialize (byteStream nm) s d = writeBytes (MathProblemPacket_bytes d) s"
  by (simp add: MathProblemPacket_serialize_def MathProblemPacket_bytes_def ByteStream_write_defs
        writeBytes_fuse writeBytes_append)

lemma MathAnswerPacket_serialize_bytes:
  "MathAnswerPacket_serialize (byteStream nm) s d = writeBytes (MathAnswerPacket_bytes d) s"
  by (simp add: MathAnswerPacket_serialize_def MathAnswerPacket_bytes_def ByteStream_write_defs
        writeBytes_fuse writeBytes_append)

lemma MathFeedbackPacket_serialize_bytes:
  "MathFeedbackPacket_serialize (byteStream nm) s d = writeBytes (MathFeedbackPacket_bytes d) s"
  by (cases "xpEarned d"; cases "totalXP d")
     (simp_all add: MathFeedbackPacket_serialize_def MathFeedbackPacket_bytes_def
        ByteStream_write_defs writeBytes_fuse writeBytes_append Let_def)

lemma MathProblemPacket_deserialize_bytes:
  "MathProblemPacket_deserialize (byteStream nm) (streamAt cap pre (MathProblemPacket_bytes d @ post)) =
     Inr (\<lparr>problem = take 32 (problem d), rewardType = take 32 (rewardType d),
           rewardCount = rewardCount d mod 256, problemId = problemId d mod 65536\<rparr>,
          streamAt cap (pre @ MathProblemPacket_bytes d) post)"
  by (simp add: MathProblemPacket_deserialize_def MathProblemPacket_bytes_def
        readString_at readUint8_at readUint16_at)

lemma MathAnswerPacket_deserialize_bytes:
  "MathAnswerPacket_deserialize (byteStream nm) (streamAt cap pre (MathAnswerPacket_bytes d @ post)) =
     Inr (\<lparr>ma_answer = sint (word_of_int (ma_answer d) :: 16 word),
           ma_problemId = ma_problemId d mod 65536\<rparr>,
          streamAt cap (pre @ MathAnswerPacket_bytes d) post)"
  by (simp add: MathAnswerPacket_deserialize_def MathAnswerPacket_bytes_def
        readInt16_at readUint16_at)

lemma readIf_uint16_at:
  "readIf (x \<noteq> None) ByteStream_readUint16
     (streamAt cap pre ((case x of Some v \<Rightarrow> encodeUint16 v | None \<Rightarrow> []) @ post)) =
   Inr (map_option (\<lambda>v. v mod 65536) x,
        streamAt cap (pre @ (case x of Some v \<Rightarrow> encodeUint16 v | None \<Rightarrow> [])) post)"
  by (cases x) (simp_all add: readIf_def readUint16_at)

lemma readIf_uint32_at:
  "readIf (x \<noteq> None) ByteStream_readUint32
     (streamAt cap pre ((case x of Some v \<Rightarrow> encodeUint32 v | None \<Rightarrow> []) @ post)) =
   Inr (map_option (\<lambda>v. v mod 4294967296) x,
        streamAt cap (pre @ (case x of Some v \<Rightarrow> encodeUint32 v | None \<Rightarrow> [])) post)"
  by (cases x) (simp_all add: readIf_def readUint32_at)

lemma MathFeedbackPacket_deserialize_bytes:
  "MathFeedbackPacket_deserialize (byteStream nm) (streamAt cap pre (MathFeedbackPacket_bytes d @ post)) =
     Inr (\<lparr>isCorrect = isCorrect d, mf_problemId = mf_problemId d mod 65536,
           xpEarned = map_option (\<lambda>v. v mod 65536) (xpEarned d),
           totalXP = map_option (\<lambda>v. v mod 4294967296) (totalXP d)\<rparr>,
          streamAt cap (pre @ MathFeedbackPacket_bytes d) post)"
proof -
  let ?g = "encodeBooleanGroup [isCorrect d, xpEarned d \<noteq> None, totalXP d \<noteq> None]"
  let ?rest = "encodeUint16 (mf_problemId d) @
     (case xpEarned d of Some x \<Rightarrow> encodeUint16 x | None \<Rightarrow> []) @
     (case totalXP d of Some t \<Rightarrow> encodeUint32 t | None \<Rightarrow> []) @ post"
  obtain flags where
    rd: "ByteStream_readBooleanGroup (streamAt cap pre (?g @ ?rest)) =
           Inr (flags, streamAt cap (pre @ ?g) ?rest)"
    and fl: "\<And>i. flagAt flags i = (i < 8 \<and> flagAt [isCorrect d, xpEarned d \<noteq> None, totalXP d \<noteq> None] i)"
    using readBooleanGroup_at [of cap pre _ ?rest] by blast
  have f0: "flagAt flags 0 = isCorrect d" and f1: "flagAt flags (Suc 0) = (xpEarned d \<noteq> None)"
    and f2: "flagAt flags 2 = (totalXP d \<noteq> None)"
    by (simp_all add: fl flagAt_Cons_0 flagAt_Cons_Suc eval_nat_numeral)
  show ?thesis
    unfolding MathFeedbackPacket_deserialize_def MathFeedbackPacket_bytes_def Let_def
    by (simp add: rd f0 f1 f2 readUint16_at readIf_uint16_at readIf_uint32_at
          del: not_None_eq)
qed

lemma indexOf_member:
  "d \<in> set ds \<Longrightarrow> \<exists>i. indexOf ds d = Some i \<and> i < length ds \<and> ds ! i = d"
  by (induction ds) auto

lemma writeToStream_bytes:
  "d \<in> set ds \<Longrightarrow> writeToStream (byteRegistry ds) s d = writeBytes (encodeReference ds d) s"
  using indexOf_member [of d ds] by (auto simp: byteRegistry_def encodeReference_def)

lemma readFromStream_at:
  assumes "d \<in> set ds" "length ds \<le> 4294967296"
  shows "readFromStream (byteRegistry ds) (streamAt cap pre (encodeReference ds d @ post)) =
           Inr (d, streamAt cap (pre @ encodeReference ds d) post)"
proof -
  from indexOf_member [OF assms(1)]
  obtain i where i: "indexOf ds d = Some i" "i < length ds" and di: "ds ! i = d"
    by (elim exE conjE)
  define m where "m = length ds - 1"
  from i(2) have le: "i \<le> m" unfolding m_def by linarith
  from i(2) assms(2) have lt: "m < 4294967296" unfolding m_def by linarith
  have e: "encodeReference ds d = encodeUpTo m i"
    by (simp add: encodeReference_def i(1) m_def)
  have r: "readFromStream (byteRegistry ds) s =
          andThen (readUpTo m s) (\<lambda>(i, s).
            if nat i < length ds then Inr (ds ! nat i, s) else Inl RegistryIndexOutOfRange)" for s
    by (simp add: byteRegistry_def m_def)
  have "readFromStream (byteRegistry ds) (streamAt cap pre (encodeUpTo m i @ post)) =
          Inr (ds ! i, streamAt cap (pre @ encodeUpTo m i) post)"
    unfolding r readUpTo_at [OF le lt] using i(2) by simp
  then show ?thesis by (simp only: e di)
qed

lemma write_optional_reference_bytes:
  assumes "case x of Some b \<Rightarrow> b \<in> set ds | None \<Rightarrow> True"
  shows "andThen (writeBytes a s)
           (\<lambda>s. andThen (case x of Some b \<Rightarrow> writeToStream (byteRegistry ds) s b | None \<Rightarrow> Inr s) k) =
         andThen (writeBytes (a @ (case x of Some b \<Rightarrow> encodeReference ds b | None \<Rightarrow> [])) s) k"
  using assms by (cases x) (simp_all add: writeToStream_bytes writeBytes_fuse)

lemma write_optional_string_bytes:
  "andThen (writeBytes a s)
     (\<lambda>s. andThen (case x of Some t \<Rightarrow> ByteStream_writeString m t s | None \<Rightarrow> Inr s) k) =
   andThen (writeBytes (a @ (case x of Some t \<Rightarrow> encodeString m t | None \<Rightarrow> [])) s) k"
  by (cases x) (simp_all add: ByteStream_writeString_def writeBytes_fuse)

lemma forEach_write_bytes:
  assumes "list_all (\<lambda>i. case elementAt es i of Some e \<Rightarrow> e \<in> set ds | None \<Rightarrow> True) is"
  shows "andThen (writeBytes a s)
           (forEach is (\<lambda>i s. case elementAt es i of None \<Rightarrow> Inr s
                                | Some e \<Rightarrow> writeToStream (byteRegistry ds) s e)) =
         writeBytes (a @ concat (map (\<lambda>i. case elementAt es i of
                        Some e \<Rightarrow> encodeReference ds e | None \<Rightarrow> []) is)) s"
  using assms
proof (induction "is" arbitrary: a)
  case Nil
  have "forEach [] (\<lambda>i s. case elementAt es i of None \<Rightarrow> Inr s
                                | Some e \<Rightarrow> writeToStream (byteRegistry ds) s e) = Inr"
    by (simp add: fun_eq_iff)
  then show ?case by simp
next
  case (Cons i "is")
  let ?body = "\<lambda>i s. case elementAt es i of None \<Rightarrow> Inr s
                                | Some e \<Rightarrow> writeToStream (byteRegistry ds) s e"
  let ?enc = "\<lambda>i. case elementAt es i of Some e \<Rightarrow> encodeReference ds e | None \<Rightarrow> []"
  from Cons.prems have m: "case elementAt es i of Some e \<Rightarrow> e \<in> set ds | None \<Rightarrow> True"
    and r: "list_all (\<lambda>i. case elementAt es i of Some e \<Rightarrow> e \<in> set ds | None \<Rightarrow> True) is"
    by simp_all
  have "forEach (i # is) ?body = (\<lambda>s. andThen (?body i s) (forEach is ?body))"
    by (simp add: fun_eq_iff)
  then have "andThen (writeBytes a s) (forEach (i # is) ?body) =
        andThen (writeBytes a s) (\<lambda>s. andThen (?body i s) (forEach is ?body))"
    by simp
  also have "\<dots> = andThen (writeBytes (a @ ?enc i) s) (forEach is ?body)"
    by (rule write_optional_reference_bytes [OF m])
  also have "\<dots> = writeBytes ((a @ ?enc i) @ concat (map ?enc is)) s"
    by (rule Cons.IH [OF r])
  finally show ?case by (simp only: append_assoc concat.simps list.map)
qed

lemma byteCommon_sel [simp]:
  "stream (byteCommon nm v ls bs es) = byteStream nm"
  "Loots (byteCommon nm v ls bs es) = byteRegistry ls"
  "Badges (byteCommon nm v ls bs es) = byteRegistry bs"
  "Emotes (byteCommon nm v ls bs es) = byteRegistry es"
  "GameConstants_protocolVersion (byteCommon nm v ls bs es) = v"
  by (simp_all add: byteCommon_def)

lemma JoinPacket_serialize_bytes:
  assumes "knownReferences ls bs es d"
  shows "JoinPacket_serialize (byteCommon nm v ls bs es) s d =
           writeBytes (JoinPacket_bytes nm v ls bs es d) s"
proof -
  from assms have sk: "skin d \<in> set ls"
    and bd: "case badge d of Some b \<Rightarrow> b \<in> set bs | None \<Rightarrow> True"
    and em: "list_all (\<lambda>i. case elementAt (emotes d) i of Some e \<Rightarrow> e \<in> set es | None \<Rightarrow> True) [0..<6]"
    by (simp_all add: knownReferences_def)
  show ?thesis
    unfolding JoinPacket_serialize_def JoinPacket_bytes_def Let_def byteCommon_sel byteStream_sel
      ByteStream_write_defs writeToStream_bytes [OF sk] writeBytes_fuse
      write_optional_reference_bytes [OF bd] writeBytes_fuse_option
      forEach_write_bytes [OF em]
    by (simp only: append_assoc)
qed

lemma readIf_reference_at:
  assumes "case x of Some b \<Rightarrow> b \<in> set ds | None \<Rightarrow> True" "length ds \<le> 4294967296"
  shows "readIf (x \<noteq> None) (readFromStream (byteRegistry ds))
     (streamAt cap pre ((case x of Some b \<Rightarrow> encodeReference ds b | None \<Rightarrow> []) @ post)) =
   Inr (x, streamAt cap (pre @ (case x of Some b \<Rightarrow> encodeReference ds b | None \<Rightarrow> [])) post)"
  using assms by (cases x) (simp_all add: readIf_def readFromStream_at)

lemma readIf_string_at:
  assumes "m < 4294967296"
  shows "readIf (x \<noteq> None) (ByteStream_readString m)
     (streamAt cap pre ((case x of Some t \<Rightarrow> encodeString m t | None \<Rightarrow> []) @ post)) =
   Inr (map_option (take m) x,
        streamAt cap (pre @ (case x of Some t \<Rightarrow> encodeString m t | None \<Rightarrow> [])) post)"
  using assms by (cases x) (simp_all add: readIf_def readString_at)

lemma forEach_read_bytes:
  assumes "list_all (\<lambda>i. case elementAt es i of Some e \<Rightarrow> e \<in> set ds | None \<Rightarrow> True) is"
    and "length ds \<le> 4294967296"
    and "\<forall>i\<in>set is. flagAt ef i = (elementAt es i \<noteq> None)"
    and "distinct is" and "\<forall>i\<in>set is. i < length a0 \<and> a0 ! i = None"
  shows "forEach is
           (\<lambda>i (a, s).
              if \<not> flagAt ef i then Inr (a, s)
              else andThen (readFromStream (byteRegistry ds) s) (\<lambda>(e, s). Inr (a[i := Some e], s)))
           (a0, streamAt cap pre
                  (concat (map (\<lambda>i. case elementAt es i of
                                  Some e \<Rightarrow> encodeReference ds e | None \<Rightarrow> []) is) @ post)) =
         Inr (fold (\<lambda>i a. a[i := elementAt es i]) is a0,
              streamAt cap
                (pre @ concat (map (\<lambda>i. case elementAt es i of
                                  Some e \<Rightarrow> encodeReference ds e | None \<Rightarrow> []) is)) post)"
  using assms
proof (induction "is" arbitrary: a0 pre)
  case Nil
  then show ?case by simp
next
  case (Cons i "is")
  let ?enc = "\<lambda>i. case elementAt es i of Some e \<Rightarrow> encodeReference ds e | None \<Rightarrow> []"
  from Cons.prems have m: "case elementAt es i of Some e \<Rightarrow> e \<in> set ds | None \<Rightarrow> True"
    and r: "list_all (\<lambda>i. case elementAt es i of Some e \<Rightarrow> e \<in> set ds | None \<Rightarrow> True) is"
    and f: "flagAt ef i = (elementAt es i \<noteq> None)"
    and fr: "\<forall>i\<in>set is. flagAt ef i = (elementAt es i \<noteq> None)"
    and d: "distinct is" and ni: "i \<notin> set is"
    and a: "i < length a0" "a0 ! i = None"
    and ar: "\<forall>k\<in>set is. k < length a0 \<and> a0 ! k = None"
    by simp_all
  show ?case
  proof (cases "elementAt es i")
    case None
    from a have "a0[i := None] = a0" by (metis list_update_id)
    with None f Cons.IH [OF r Cons.prems(2) fr d ar, of pre] show ?thesis by simp
  next
    case (Some e)
    with m have e: "e \<in> set ds" by simp
    have "\<forall>k\<in>set is. k < length (a0[i := Some e]) \<and> a0[i := Some e] ! k = None"
    proof
      fix k assume k: "k \<in> set is"
      with ni have "i \<noteq> k" by auto
      with ar k show "k < length (a0[i := Some e]) \<and> a0[i := Some e] ! k = None" by simp
    qed
    from Cons.IH [OF r Cons.prems(2) fr d this, of "pre @ encodeReference ds e"] Some f
      readFromStream_at [OF e Cons.prems(2), of cap pre]
    show ?thesis by simp
  qed
qed

lemma fold_six:
  "fold (\<lambda>i a. a[i := f i]) [0..<6] (replicate 8 None) = map f [0..<6] @ [None, None]"
  by (simp add: upt_rec eval_nat_numeral)

lemma JoinPacket_deserialize_bytes:
  assumes k: "knownReferences ls bs es d" and nm: "nm < 4294967296"
  shows "JoinPacket_deserialize (byteCommon nm v ls bs es)
           (streamAt cap pre (JoinPacket_bytes nm v ls bs es d @ post)) =
         Inr (\<lparr>name = sanitizeName (take nm (name d)), isMobile = isMobile d, skin = skin d,
               badge = badge d,
               emotes = map (elementAt (emotes d)) [0..<6] @ [None, None],
               authToken = map_option (take 256) (authToken d),
               studentId = map_option (take 64) (studentId d),
               protocolVersion = v mod 65536\<rparr>,
              streamAt cap (pre @ JoinPacket_bytes nm v ls bs es d) post)"
proof -
  let ?flags = "[isMobile d, badge d \<noteq> None, authToken d \<noteq> None, studentId d \<noteq> None,
        elementAt (emotes d) 0 \<noteq> None, elementAt (emotes d) 1 \<noteq> None,
        elementAt (emotes d) 2 \<noteq> None, elementAt (emotes d) 3 \<noteq> None,
        elementAt (emotes d) 4 \<noteq> None, elementAt (emotes d) 5 \<noteq> None]"
  let ?g = "encodeBooleanGroup2 ?flags"
  let ?enc = "\<lambda>i. case elementAt (emotes d) i of Some e \<Rightarrow> encodeReference es e | None \<Rightarrow> []"
  let ?rest = "encodeUint16 v @ encodeString nm (name d) @ encodeReference ls (skin d) @
     (case badge d of Some b \<Rightarrow> encodeReference bs b | None \<Rightarrow> []) @
     (case authToken d of Some t \<Rightarrow> encodeString 256 t | None \<Rightarrow> []) @
     (case studentId d of Some i \<Rightarrow> encodeString 64 i | None \<Rightarrow> []) @
     concat (map ?enc [0..<6]) @ post"
  from k have sk: "skin d \<in> set ls" and lls: "length ls \<le> 4294967296"
    and lbs: "length bs \<le> 4294967296" and les: "length es \<le> 4294967296"
    and bd: "case badge d of Some b \<Rightarrow> b \<in> set bs | None \<Rightarrow> True"
    and em: "list_all (\<lambda>i. case elementAt (emotes d) i of Some e \<Rightarrow> e \<in> set es | None \<Rightarrow> True) [0..<6]"
    by (simp_all add: knownReferences_def)
  obtain flags where
    rd: "ByteStream_readBooleanGroup2 (streamAt cap pre (?g @ ?rest)) =
           Inr (flags, streamAt cap (pre @ ?g) ?rest)"
    and fl: "\<And>i. flagAt flags i = (i < 16 \<and> flagAt ?flags i)"
    using readBooleanGroup2_at [of cap pre ?flags ?rest] by blast
  have f0: "flagAt flags 0 = isMobile d" and f1: "flagAt flags 1 = (badge d \<noteq> None)"
    and f2: "flagAt flags 2 = (authToken d \<noteq> None)"
    and f3: "flagAt flags 3 = (studentId d \<noteq> None)"
    by (simp_all add: fl flagAt_Cons_0 flagAt_Cons_Suc eval_nat_numeral)
  have fe: "\<forall>i\<in>set [0..<6]. flagAt (drop 4 flags) i = (elementAt (emotes d) i \<noteq> None)"
  proof
    fix i assume "i \<in> set [0..<6]"
    then have i: "i < 6" by simp
    have "flagAt (drop 4 flags) i = flagAt flags (4 + i)" by (auto simp: flagAt_def)
    also have "\<dots> = flagAt ?flags (4 + i)" using i by (simp add: fl)
    also have "\<dots> = (elementAt (emotes d) i \<noteq> None)"
      using i by (auto simp: flagAt_def nth_Cons' less_Suc_eq eval_nat_numeral)
    finally show "flagAt (drop 4 flags) i = (elementAt (emotes d) i \<noteq> None)" .
  qed
  have "distinct [0..<6]"
    and "\<forall>i\<in>set [0..<6]. i < length (replicate 8 (None :: Definition option)) \<and>
           replicate 8 (None :: Definition option) ! i = None"
    by simp_all
  note loop = forEach_read_bytes [OF em les fe this, unfolded fold_six]
  have e: "JoinPacket_bytes nm v ls bs es d @ post = ?g @ ?rest"
    by (simp add: JoinPacket_bytes_def)
  have p: "pre @ JoinPacket_bytes nm v ls bs es d =
     pre @ ?g @ encodeUint16 v @ encodeString nm (name d) @ encodeReference ls (skin d) @
     (case badge d of Some b \<Rightarrow> encodeReference bs b | None \<Rightarrow> []) @
     (case authToken d of Some t \<Rightarrow> encodeString 256 t | None \<Rightarrow> []) @
     (case studentId d of Some i \<Rightarrow> encodeString 64 i | None \<Rightarrow> []) @
     concat (map ?enc [0..<6])"
    by (simp add: JoinPacket_bytes_def)
  show ?thesis
    unfolding JoinPacket_deserialize_def Let_def e p byteCommon_sel byteStream_sel
    by (simp add: rd f0 f1 f2 f3 readUint16_at readString_at [OF nm] readFromStream_at [OF sk lls]
          readIf_reference_at [OF bd lbs] readIf_string_at loop
          del: not_None_eq upt_Suc One_nat_def)
qed

lemma length_encodeString: "length (encodeString m s) \<le> 4 + m"
  by (auto simp: encodeString_def encodeUpTo_def Let_def min_def)

lemma length_encodeString_short: "m < 256 \<Longrightarrow> length (encodeString m s) \<le> 1 + m"
  by (auto simp: encodeString_def encodeUpTo_def Let_def min_def)

lemma length_encodeString_medium: "m < 65536 \<Longrightarrow> length (encodeString m s) \<le> 2 + m"
  by (auto simp: encodeString_def encodeUpTo_def Let_def min_def)

lemma length_encodeReference: "length (encodeReference ds d) \<le> 4"
  by (simp add: encodeReference_def encodeUpTo_def split: option.splits)

lemma length_MathProblemPacket_bytes: "length (MathProblemPacket_bytes d) \<le> 69"
  using length_encodeString_short [of 32 "problem d"] length_encodeString_short [of 32 "rewardType d"]
  by (simp add: MathProblemPacket_bytes_def)

lemma length_MathAnswerPacket_bytes: "length (MathAnswerPacket_bytes d) = 4"
  by (simp add: MathAnswerPacket_bytes_def)

lemma length_MathFeedbackPacket_bytes: "length (MathFeedbackPacket_bytes d) \<le> 9"
  by (simp add: MathFeedbackPacket_bytes_def encodeBooleanGroup_def split: option.splits)

lemma length_optional:
  "(\<And>v. length (enc v) \<le> n) \<Longrightarrow> length (case x of Some v \<Rightarrow> enc v | None \<Rightarrow> []) \<le> n"
  by (cases x) simp_all

lemma length_concat_references:
  "length (concat (map (\<lambda>i. case elementAt es i of
      Some e \<Rightarrow> encodeReference ds e | None \<Rightarrow> []) ixs)) \<le> 4 * length ixs"
proof (induction ixs)
  case Nil
  then show ?case by simp
next
  case (Cons i ixs)
  have "length (case elementAt es i of Some e \<Rightarrow> encodeReference ds e | None \<Rightarrow> []) \<le> 4"
    by (rule length_optional) (rule length_encodeReference)
  with Cons show ?case by simp
qed

lemma length_JoinPacket_bytes: "length (JoinPacket_bytes nm v ls bs es d) \<le> 363 + nm"
proof -
  have "length (encodeString nm (name d)) \<le> 4 + nm" by (rule length_encodeString)
  moreover have "length (encodeReference ls (skin d)) \<le> 4" by (rule length_encodeReference)
  moreover have "length (case badge d of Some b \<Rightarrow> encodeReference bs b | None \<Rightarrow> []) \<le> 4"
    by (rule length_optional) (rule length_encodeReference)
  moreover have "length (case authToken d of Some t \<Rightarrow> encodeString 256 t | None \<Rightarrow> []) \<le> 258"
    by (rule length_optional) (use length_encodeString_medium [of 256] in simp)
  moreover have "length (case studentId d of Some i \<Rightarrow> encodeString 64 i | None \<Rightarrow> []) \<le> 65"
    by (rule length_optional) (use length_encodeString_short [of 64] in simp)
  moreover have "length (concat (map (\<lambda>i. case elementAt (emotes d) i of
      Some e \<Rightarrow> encodeReference es e | None \<Rightarrow> []) [0..<6])) \<le> 24"
    using length_concat_references [where es = "emotes d" and ds = es and ixs = "[0..<6]"] by simp
  ultimately show ?thesis
    by (simp add: JoinPacket_bytes_def encodeBooleanGroup2_def del: upt_Suc)
qed

lemma streamAt_done: "(streamAt cap [] bs)\<lparr>index := length (buffer (streamAt cap [] bs))\<rparr> = streamAt cap bs []"
  by (simp add: streamAt_def)

lemma example_encodings:
  "encodeBooleanGroup2 [True, False, True, False, False, True, False, False, False, False] = [0, 37]"
  "encodeUint16 5 = [0, 5]"
  "encodeString 16 '' <b>Bob</b> <3 '' =
     [15, 32, 60, 98, 62, 66, 111, 98, 60, 47, 98, 62, 32, 60, 51, 32]"
  "encodeReference exampleLoots \<lparr>idString = ''hazel_jumpsuit''\<rparr> = [0]"
  "encodeReference exampleEmotes \<lparr>idString = ''happy_face''\<rparr> = [0]"
  by code_simp+

lemma example_token_encoding: "encodeString 256 ''token'' = [0, 5, 116, 111, 107, 101, 110]"
  by (simp add: encodeString_def encodeUpTo_def encodeUint16_def Let_def byteOf_def)

lemma example_join_bytes:
  "JoinPacket_bytes 16 5 exampleLoots [] exampleEmotes exampleJoinCreation = exampleJoinBytes"
  by (simp add: JoinPacket_bytes_def exampleJoinCreation_def exampleJoinBytes_def elementAt_def
        upt_rec example_encodings example_token_encoding)

lemma example_problem_bytes: "MathProblemPacket_bytes exampleProblemData = exampleProblemBytes"
  by code_simp

lemma example_feedback_bytes: "MathFeedbackPacket_bytes exampleFeedbackData = exampleFeedbackBytes"
  by code_simp

lemma example_join_valid: "validJoin 16 5 exampleLoots [] exampleEmotes exampleJoinCreation"
  by (simp add: validJoin_def knownReferences_def exampleLoots_def exampleEmotes_def
        exampleJoinCreation_def elementAt_def upt_rec)

lemma example_join_result:
  "\<lparr>name = sanitizeName (take 16 (name exampleJoinCreation)), isMobile = isMobile exampleJoinCreation,
    skin = skin exampleJoinCreation, badge = badge exampleJoinCreation,
    emotes = map (elementAt (emotes exampleJoinCreation)) [0..<6] @ [None, None],
    authToken = map_option (take 256) (authToken exampleJoinCreation),
    studentId = map_option (take 64) (studentId exampleJoinCreation),
    protocolVersion = 5\<rparr> = exampleJoinData"
  by code_simp

lemma MathProblemPacket_round_trip:
  assumes "69 \<le> cap"
  shows "\<exists>s. MathProblemPacket_serialize (byteStream nm) (newStream cap) d = Inr s \<and>
             MathProblemPacket_deserialize (byteStream nm) s =
               Inr (\<lparr>problem = take 32 (problem d), rewardType = take 32 (rewardType d),
                     rewardCount = rewardCount d mod 256, problemId = problemId d mod 65536\<rparr>,
                    s\<lparr>index := length (buffer s)\<rparr>)"
proof -
  let ?bs = "MathProblemPacket_bytes d"
  from assms length_MathProblemPacket_bytes [of d] have "length ?bs \<le> cap" by linarith
  then have "MathProblemPacket_serialize (byteStream nm) (newStream cap) d = Inr (streamAt cap [] ?bs)"
    by (simp add: MathProblemPacket_serialize_bytes writeBytes_newStream)
  moreover from MathProblemPacket_deserialize_bytes [of nm cap "[]" d "[]"]
  have "MathProblemPacket_deserialize (byteStream nm) (streamAt cap [] ?bs) =
               Inr (\<lparr>problem = take 32 (problem d), rewardType = take 32 (rewardType d),
                     rewardCount = rewardCount d mod 256, problemId = problemId d mod 65536\<rparr>,
                    (streamAt cap [] ?bs)\<lparr>index := length (buffer (streamAt cap [] ?bs))\<rparr>)"
    by (simp add: streamAt_done)
  ultimately show ?thesis by blast
qed

lemma MathAnswerPacket_round_trip:
  assumes "4 \<le> cap"
  shows "\<exists>s. MathAnswerPacket_serialize (byteStream nm) (newStream cap) d = Inr s \<and>
             MathAnswerPacket_deserialize (byteStream nm) s =
               Inr (\<lparr>ma_answer = sint (word_of_int (ma_answer d) :: 16 word),
                     ma_problemId = ma_problemId d mod 65536\<rparr>,
                    s\<lparr>index := length (buffer s)\<rparr>)"
proof -
  let ?bs = "MathAnswerPacket_bytes d"
  from assms length_MathAnswerPacket_bytes [of d] have "length ?bs \<le> cap" by linarith
  then have "MathAnswerPacket_serialize (byteStream nm) (newStream cap) d = Inr (streamAt cap [] ?bs)"
    by (simp add: MathAnswerPacket_serialize_bytes writeBytes_newStream)
  moreover from MathAnswerPacket_deserialize_bytes [of nm cap "[]" d "[]"]
  have "MathAnswerPacket_deserialize (byteStream nm) (streamAt cap [] ?bs) =
               Inr (\<lparr>ma_answer = sint (word_of_int (ma_answer d) :: 16 word),
                     ma_problemId = ma_problemId d mod 65536\<rparr>,
                    (streamAt cap [] ?bs)\<lparr>index := length (buffer (streamAt cap [] ?bs))\<rparr>)"
    by (simp add: streamAt_done)
  ultimately show ?thesis by blast
qed

lemma MathFeedbackPacket_round_trip:
  assumes "9 \<le> cap"
  shows "\<exists>s. MathFeedbackPacket_serialize (byteStream nm) (newStream cap) d = Inr s \<and>
             MathFeedbackPacket_deserialize (byteStream nm) s =
               Inr (\<lparr>isCorrect = isCorrect d, mf_problemId = mf_problemId d mod 65536,
                     xpEarned = map_option (\<lambda>v. v mod 65536) (xpEarned d),
                     totalXP = map_option (\<lambda>v. v mod 4294967296) (totalXP d)\<rparr>,
                    s\<lparr>index := length (buffer s)\<rparr>)"
proof -
  let ?bs = "MathFeedbackPacket_bytes d"
  from assms length_MathFeedbackPacket_bytes [of d] have "length ?bs \<le> cap" by linarith
  then have "MathFeedbackPacket_serialize (byteStream nm) (newStream cap) d = Inr (streamAt cap [] ?bs)"
    by (simp add: MathFeedbackPacket_serialize_bytes writeBytes_newStream)
  moreover from MathFeedbackPacket_deserialize_bytes [of nm cap "[]" d "[]"]
  have "MathFeedbackPacket_deserialize (byteStream nm) (streamAt cap [] ?bs) =
               Inr (\<lparr>isCorrect = isCorrect d, mf_problemId = mf_problemId d mod 65536,
                     xpEarned = map_option (\<lambda>v. v mod 65536) (xpEarned d),
                     totalXP = map_option (\<lambda>v. v mod 4294967296) (totalXP d)\<rparr>,
                    (streamAt cap [] ?bs)\<lparr>index := length (buffer (streamAt cap [] ?bs))\<rparr>)"
    by (simp add: streamAt_done)
  ultimately show ?thesis by blast
qed

lemma JoinPacket_round_trip:
  assumes "knownReferences ls bs es d" "nm < 4294967296" "363 + nm \<le> cap"
  shows "\<exists>s. JoinPacket_serialize (byteCommon nm v ls bs es) (newStream cap) d = Inr s \<and>
             JoinPacket_deserialize (byteCommon nm v ls bs es) s =
               Inr (\<lparr>name = sanitizeName (take nm (name d)), isMobile = isMobile d, skin = skin d,
                     badge = badge d,
                     emotes = map (elementAt (emotes d)) [0..<6] @ [None, None],
                     authToken = map_option (take 256) (authToken d),
                     studentId = map_option (take 64) (studentId d),
                     protocolVersion = v mod 65536\<rparr>,
                    s\<lparr>index := length (buffer s)\<rparr>)"
proof -
  let ?bs = "JoinPacket_bytes nm v ls bs es d"
  from assms(3) length_JoinPacket_bytes [of nm v ls bs es d] have "length ?bs \<le> cap" by linarith
  then have "JoinPacket_serialize (byteCommon nm v ls bs es) (newStream cap) d =
      Inr (streamAt cap [] ?bs)"
    by (simp add: JoinPacket_serialize_bytes [OF assms(1)] writeBytes_newStream)
  moreover from JoinPacket_deserialize_bytes [OF assms(1,2), of v cap "[]" "[]"]
  have "JoinPacket_deserialize (byteCommon nm v ls bs es) (streamAt cap [] ?bs) =
               Inr (\<lparr>name = sanitizeName (take nm (name d)), isMobile = isMobile d, skin = skin d,
                     badge = badge d,
                     emotes = map (elementAt (emotes d)) [0..<6] @ [None, None],
                     authToken = map_option (take 256) (authToken d),
                     studentId = map_option (take 64) (studentId d),
                     protocolVersion = v mod 65536\<rparr>,
                    (streamAt cap [] ?bs)\<lparr>index := length (buffer (streamAt cap [] ?bs))\<rparr>)"
    by (simp add: streamAt_done del: upt_Suc)
  ultimately show ?thesis by blast
qed

lemma example_valid:
  "validMathProblem exampleProblemData" "validMathAnswer exampleAnswerData"
  "validMathFeedback exampleFeedbackData"
  by (simp_all add: validMathProblem_def validMathAnswer_def validMathFeedback_def
        exampleProblemData_def exampleAnswerData_def exampleFeedbackData_def)

lemma writeBytes_newStream_Inr:
  "writeBytes bs (newStream cap) = Inr s \<Longrightarrow> s = streamAt cap [] bs \<and> length bs \<le> cap"
  by (auto simp: writeBytes_def newStream_def streamAt_def split: if_splits)

lemma writeBytes_bound: "writeBytes bs s = Inr s' \<Longrightarrow> length (buffer s') \<le> capacity s'"
  by (auto simp: writeBytes_def split: if_splits)

lemma readBytes_bound:
  "readBytes n s = Inr (x, s') \<Longrightarrow> index s' \<le> length (buffer s') \<and> buffer s' = buffer s"
  by (auto simp: readBytes_def split: if_splits)

lemma example_short_write:
  "ByteStream_writeString 3 ''gauze'' (newStream 379) = Inr (streamAt 379 [] [3, 103, 97, 117])"
  by (simp add: ByteStream_writeString_def encodeString_def encodeUpTo_def encodeUint8_def
        byteOf_def writeBytes_def newStream_def streamAt_def)

lemma andThen_Inl_iff:
  "andThen r f = Inl e \<longleftrightarrow> r = Inl e \<or> (\<exists>x. r = Inr x \<and> f x = Inl e)"
  by (cases r) simp_all



lemma readBytes_short: "remaining s < n \<Longrightarrow> readBytes n s = Inl Truncated"
  by (auto simp: readBytes_def remaining_def)


















lemma readIf_Inl: "(\<And>e. rd s = Inl e \<Longrightarrow> e = Truncated) \<Longrightarrow> readIf flag rd s = Inl e \<Longrightarrow> e = Truncated"
  by (auto simp: readIf_def andThen_Inl_iff split: if_splits)








section \<open>C1: round trip of the four packets\<close>

text \<open>
  C1, as amended. On the byte stream, for each of the four packets and every valid
  payload, \<open>serialize\<close> succeeds on a new stream of sufficient capacity, and
  \<open>deserialize\<close> of the stream it leaves returns the payload and has read every byte
  written; an optional field that is absent in the payload is absent in the result. For
  the join packet the result is the payload with the protocol version of the game's
  constants, with the name sanitised (markup removed, outer white space trimmed), and
  with the emotes 0 to 5 in an array of eight: the name decoded equals the name encoded
  only when that name is already sanitised.
\<close>

theorem C1_round_trip_with_sanitized_name:
  "(validMathProblem p \<and> 69 \<le> cap \<longrightarrow>
      (\<exists>s. MathProblemPacket_serialize (byteStream nm) (newStream cap) p = Inr s \<and>
           MathProblemPacket_deserialize (byteStream nm) s = Inr (p, s\<lparr>index := length (buffer s)\<rparr>)))
   \<and> (validMathAnswer a \<and> 4 \<le> cap \<longrightarrow>
      (\<exists>s. MathAnswerPacket_serialize (byteStream nm) (newStream cap) a = Inr s \<and>
           MathAnswerPacket_deserialize (byteStream nm) s = Inr (a, s\<lparr>index := length (buffer s)\<rparr>)))
   \<and> (validMathFeedback f \<and> 9 \<le> cap \<longrightarrow>
      (\<exists>s. MathFeedbackPacket_serialize (byteStream nm) (newStream cap) f = Inr s \<and>
           MathFeedbackPacket_deserialize (byteStream nm) s = Inr (f, s\<lparr>index := length (buffer s)\<rparr>)))
   \<and> (validJoin nm v ls bs es j \<and> 363 + nm \<le> cap \<longrightarrow>
      (\<exists>s. JoinPacket_serialize (byteCommon nm v ls bs es) (newStream cap) j = Inr s \<and>
           JoinPacket_deserialize (byteCommon nm v ls bs es) s =
             Inr (\<lparr>name = sanitizeName (name j), isMobile = isMobile j, skin = skin j,
                   badge = badge j,
                   emotes = map (elementAt (emotes j)) [0..<6] @ [None, None],
                   authToken = authToken j, studentId = studentId j,
                   protocolVersion = v\<rparr>,
                  s\<lparr>index := length (buffer s)\<rparr>)))"
proof (intro conjI impI)
  assume h: "validMathProblem p \<and> 69 \<le> cap"
  then have "\<lparr>problem = take 32 (problem p), rewardType = take 32 (rewardType p),
              rewardCount = rewardCount p mod 256, problemId = problemId p mod 65536\<rparr> = p"
    by (simp add: validMathProblem_def)
  with MathProblemPacket_round_trip [of cap nm p] h
  show "\<exists>s. MathProblemPacket_serialize (byteStream nm) (newStream cap) p = Inr s \<and>
           MathProblemPacket_deserialize (byteStream nm) s = Inr (p, s\<lparr>index := length (buffer s)\<rparr>)"
    by simp
next
  assume h: "validMathAnswer a \<and> 4 \<le> cap"
  then have "sint (word_of_int (ma_answer a) :: 16 word) = ma_answer a"
    by (intro int16_holds) (simp_all add: validMathAnswer_def)
  with h have "\<lparr>ma_answer = sint (word_of_int (ma_answer a) :: 16 word),
                 ma_problemId = ma_problemId a mod 65536\<rparr> = a"
    by (simp add: validMathAnswer_def)
  with MathAnswerPacket_round_trip [of cap nm a] h
  show "\<exists>s. MathAnswerPacket_serialize (byteStream nm) (newStream cap) a = Inr s \<and>
           MathAnswerPacket_deserialize (byteStream nm) s = Inr (a, s\<lparr>index := length (buffer s)\<rparr>)"
    by simp
next
  assume h: "validMathFeedback f \<and> 9 \<le> cap"
  then have "map_option (\<lambda>v. v mod 65536) (xpEarned f) = xpEarned f"
    "map_option (\<lambda>v. v mod 4294967296) (totalXP f) = totalXP f"
    by (auto simp: validMathFeedback_def split: option.splits)
  with h have "\<lparr>isCorrect = isCorrect f, mf_problemId = mf_problemId f mod 65536,
                 xpEarned = map_option (\<lambda>v. v mod 65536) (xpEarned f),
                 totalXP = map_option (\<lambda>v. v mod 4294967296) (totalXP f)\<rparr> = f"
    by (simp add: validMathFeedback_def)
  with MathFeedbackPacket_round_trip [of cap nm f] h
  show "\<exists>s. MathFeedbackPacket_serialize (byteStream nm) (newStream cap) f = Inr s \<and>
           MathFeedbackPacket_deserialize (byteStream nm) s = Inr (f, s\<lparr>index := length (buffer s)\<rparr>)"
    by simp
next
  assume h: "validJoin nm v ls bs es j \<and> 363 + nm \<le> cap"
  then have k: "knownReferences ls bs es j" and n: "nm < 4294967296" and c: "363 + nm \<le> cap"
    by (simp_all add: validJoin_def)
  from h have "take nm (name j) = name j" "v mod 65536 = v"
    "map_option (take 256) (authToken j) = authToken j"
    "map_option (take 64) (studentId j) = studentId j"
    by (auto simp: validJoin_def split: option.splits)
  with JoinPacket_round_trip [OF k n c, of v]
  show "\<exists>s. JoinPacket_serialize (byteCommon nm v ls bs es) (newStream cap) j = Inr s \<and>
           JoinPacket_deserialize (byteCommon nm v ls bs es) s =
             Inr (\<lparr>name = sanitizeName (name j), isMobile = isMobile j, skin = skin j,
                   badge = badge j,
                   emotes = map (elementAt (emotes j)) [0..<6] @ [None, None],
                   authToken = authToken j, studentId = studentId j,
                   protocolVersion = v\<rparr>,
                  s\<lparr>index := length (buffer s)\<rparr>)"
    by (simp del: upt_Suc)
qed

text \<open>The theorem at the four example payloads.\<close>

theorem C1_round_trip_with_sanitized_name_witness:
  "(\<exists>s. MathProblemPacket_serialize (byteStream 16) (newStream 379) exampleProblemData = Inr s \<and>
        MathProblemPacket_deserialize (byteStream 16) s =
          Inr (exampleProblemData, s\<lparr>index := length (buffer s)\<rparr>)) \<and>
   (\<exists>s. MathAnswerPacket_serialize (byteStream 16) (newStream 379) exampleAnswerData = Inr s \<and>
        MathAnswerPacket_deserialize (byteStream 16) s =
          Inr (exampleAnswerData, s\<lparr>index := length (buffer s)\<rparr>)) \<and>
   (\<exists>s. MathFeedbackPacket_serialize (byteStream 16) (newStream 379) exampleFeedbackData = Inr s \<and>
        MathFeedbackPacket_deserialize (byteStream 16) s =
          Inr (exampleFeedbackData, s\<lparr>index := length (buffer s)\<rparr>)) \<and>
   (\<exists>s. JoinPacket_serialize (byteCommon 16 5 exampleLoots [] exampleEmotes) (newStream 379)
          exampleJoinCreation = Inr s \<and>
        JoinPacket_deserialize (byteCommon 16 5 exampleLoots [] exampleEmotes) s =
          Inr (exampleJoinData, s\<lparr>index := length (buffer s)\<rparr>))"
proof -
  have r: "\<lparr>name = sanitizeName (name exampleJoinCreation), isMobile = isMobile exampleJoinCreation,
    skin = skin exampleJoinCreation, badge = badge exampleJoinCreation,
    emotes = map (elementAt (emotes exampleJoinCreation)) [0..<6] @ [None, None],
    authToken = authToken exampleJoinCreation,
    studentId = studentId exampleJoinCreation,
    protocolVersion = 5\<rparr> = exampleJoinData"
    by code_simp
  show ?thesis
    using C1_round_trip_with_sanitized_name
      [where p = exampleProblemData and cap = 379 and nm = 16 and a = exampleAnswerData
         and f = exampleFeedbackData and v = 5 and ls = exampleLoots and bs = "[]"
         and es = exampleEmotes and j = exampleJoinCreation]
      example_valid example_join_valid
    by (simp only: r) simp
qed

text \<open>
  The claim as stated fails for the join packet: the valid example payload has the name
  \<open> <b>Bob</b> <3 \<close> (with a blank at each end), and the payload decoded from its bytes
  has the name \<open>Bob <3\<close>.
\<close>

theorem C1_join_name_counterexample:
  "validJoin 16 5 exampleLoots [] exampleEmotes exampleJoinCreation \<and>
   JoinPacket_serialize (byteCommon 16 5 exampleLoots [] exampleEmotes) (newStream 64)
     exampleJoinCreation = Inr (streamAt 64 [] exampleJoinBytes) \<and>
   JoinPacket_deserialize (byteCommon 16 5 exampleLoots [] exampleEmotes)
     (streamAt 64 [] exampleJoinBytes) = Inr (exampleJoinData, streamAt 64 exampleJoinBytes []) \<and>
   name exampleJoinCreation = '' <b>Bob</b> <3 '' \<and> name exampleJoinData = ''Bob <3'' \<and>
   name exampleJoinData \<noteq> name exampleJoinCreation"
proof -
  have k: "knownReferences exampleLoots [] exampleEmotes exampleJoinCreation"
    using example_join_valid by (simp add: validJoin_def)
  have "length exampleJoinBytes \<le> 64" by (simp add: exampleJoinBytes_def)
  then have s: "JoinPacket_serialize (byteCommon 16 5 exampleLoots [] exampleEmotes) (newStream 64)
     exampleJoinCreation = Inr (streamAt 64 [] exampleJoinBytes)"
    by (simp add: JoinPacket_serialize_bytes [OF k] example_join_bytes writeBytes_newStream)
  have d: "JoinPacket_deserialize (byteCommon 16 5 exampleLoots [] exampleEmotes)
     (streamAt 64 [] exampleJoinBytes) = Inr (exampleJoinData, streamAt 64 exampleJoinBytes [])"
    using JoinPacket_deserialize_bytes [OF k, of 16 5 64 "[]" "[]"]
    by (simp add: example_join_bytes example_join_result)
  have n: "name exampleJoinCreation = '' <b>Bob</b> <3 ''" "name exampleJoinData = ''Bob <3''"
    by (simp_all add: exampleJoinCreation_def exampleJoinData_def)
  then have "name exampleJoinData \<noteq> name exampleJoinCreation" by simp
  with example_join_valid s d n show ?thesis by (intro conjI)
qed

section \<open>C2: the concrete scenario\<close>

text \<open>
  C2. On the byte stream of any capacity from 15 bytes, the math-challenge packet with
  problem \<open>3 + 4\<close>, reward type \<open>gauze\<close>, reward count 3 and problem identifier 7
  serializes to fifteen bytes, and these deserialize to the same four values; the
  feedback packet with \<open>isCorrect\<close> true, \<open>xpEarned\<close> 2 and no \<open>totalXP\<close> serializes to
  five bytes, and these deserialize to \<open>isCorrect\<close> true, \<open>xpEarned\<close> 2 and \<open>totalXP\<close>
  absent, which is \<open>None\<close> and not the number 0.
\<close>

theorem C2_concrete_scenario:
  "15 \<le> cap \<longrightarrow>
     MathProblemPacket_serialize (byteStream nm) (newStream cap)
       \<lparr>problem = ''3 + 4'', rewardType = ''gauze'', rewardCount = 3, problemId = 7\<rparr> =
       Inr (streamAt cap [] [5, 51, 32, 43, 32, 52, 5, 103, 97, 117, 122, 101, 3, 0, 7]) \<and>
     MathProblemPacket_deserialize (byteStream nm)
       (streamAt cap [] [5, 51, 32, 43, 32, 52, 5, 103, 97, 117, 122, 101, 3, 0, 7]) =
       Inr (\<lparr>problem = ''3 + 4'', rewardType = ''gauze'', rewardCount = 3, problemId = 7\<rparr>,
            streamAt cap [5, 51, 32, 43, 32, 52, 5, 103, 97, 117, 122, 101, 3, 0, 7] []) \<and>
     MathFeedbackPacket_serialize (byteStream nm) (newStream cap)
       \<lparr>isCorrect = True, mf_problemId = 7, xpEarned = Some 2, totalXP = None\<rparr> =
       Inr (streamAt cap [] [3, 0, 7, 0, 2]) \<and>
     MathFeedbackPacket_deserialize (byteStream nm) (streamAt cap [] [3, 0, 7, 0, 2]) =
       Inr (\<lparr>isCorrect = True, mf_problemId = 7, xpEarned = Some 2, totalXP = None\<rparr>,
            streamAt cap [3, 0, 7, 0, 2] [])"
proof
  assume c: "15 \<le> cap"
  have pb: "MathProblemPacket_bytes exampleProblemData =
      [5, 51, 32, 43, 32, 52, 5, 103, 97, 117, 122, 101, 3, 0, 7]"
    using example_problem_bytes by (simp add: exampleProblemBytes_def)
  have fb: "MathFeedbackPacket_bytes exampleFeedbackData = [3, 0, 7, 0, 2]"
    using example_feedback_bytes by (simp add: exampleFeedbackBytes_def)
  have p1: "MathProblemPacket_serialize (byteStream nm) (newStream cap) exampleProblemData =
       Inr (streamAt cap [] [5, 51, 32, 43, 32, 52, 5, 103, 97, 117, 122, 101, 3, 0, 7])"
    using c by (simp add: MathProblemPacket_serialize_bytes pb writeBytes_newStream)
  have p2: "MathProblemPacket_deserialize (byteStream nm)
       (streamAt cap [] [5, 51, 32, 43, 32, 52, 5, 103, 97, 117, 122, 101, 3, 0, 7]) =
       Inr (exampleProblemData,
            streamAt cap [5, 51, 32, 43, 32, 52, 5, 103, 97, 117, 122, 101, 3, 0, 7] [])"
    using MathProblemPacket_deserialize_bytes [of nm cap "[]" exampleProblemData "[]"]
    unfolding pb by (simp add: exampleProblemData_def)
  have f1: "MathFeedbackPacket_serialize (byteStream nm) (newStream cap) exampleFeedbackData =
       Inr (streamAt cap [] [3, 0, 7, 0, 2])"
    using c by (simp add: MathFeedbackPacket_serialize_bytes fb writeBytes_newStream)
  have f2: "MathFeedbackPacket_deserialize (byteStream nm) (streamAt cap [] [3, 0, 7, 0, 2]) =
       Inr (exampleFeedbackData, streamAt cap [3, 0, 7, 0, 2] [])"
    using MathFeedbackPacket_deserialize_bytes [of nm cap "[]" exampleFeedbackData "[]"]
    unfolding fb by (simp add: exampleFeedbackData_def)
  from p1 p2 f1 f2 show "MathProblemPacket_serialize (byteStream nm) (newStream cap)
       \<lparr>problem = ''3 + 4'', rewardType = ''gauze'', rewardCount = 3, problemId = 7\<rparr> =
       Inr (streamAt cap [] [5, 51, 32, 43, 32, 52, 5, 103, 97, 117, 122, 101, 3, 0, 7]) \<and>
     MathProblemPacket_deserialize (byteStream nm)
       (streamAt cap [] [5, 51, 32, 43, 32, 52, 5, 103, 97, 117, 122, 101, 3, 0, 7]) =
       Inr (\<lparr>problem = ''3 + 4'', rewardType = ''gauze'', rewardCount = 3, problemId = 7\<rparr>,
            streamAt cap [5, 51, 32, 43, 32, 52, 5, 103, 97, 117, 122, 101, 3, 0, 7] []) \<and>
     MathFeedbackPacket_serialize (byteStream nm) (newStream cap)
       \<lparr>isCorrect = True, mf_problemId = 7, xpEarned = Some 2, totalXP = None\<rparr> =
       Inr (streamAt cap [] [3, 0, 7, 0, 2]) \<and>
     MathFeedbackPacket_deserialize (byteStream nm) (streamAt cap [] [3, 0, 7, 0, 2]) =
       Inr (\<lparr>isCorrect = True, mf_problemId = 7, xpEarned = Some 2, totalXP = None\<rparr>,
            streamAt cap [3, 0, 7, 0, 2] [])"
    unfolding exampleProblemData_def exampleFeedbackData_def by (intro conjI)
qed

text \<open>The theorem at capacity 15.\<close>

theorem C2_concrete_scenario_witness:
  "MathProblemPacket_deserialize (byteStream 16)
       (streamAt 15 [] [5, 51, 32, 43, 32, 52, 5, 103, 97, 117, 122, 101, 3, 0, 7]) =
       Inr (\<lparr>problem = ''3 + 4'', rewardType = ''gauze'', rewardCount = 3, problemId = 7\<rparr>,
            streamAt 15 [5, 51, 32, 43, 32, 52, 5, 103, 97, 117, 122, 101, 3, 0, 7] []) \<and>
   MathFeedbackPacket_deserialize (byteStream 16) (streamAt 15 [] [3, 0, 7, 0, 2]) =
       Inr (\<lparr>isCorrect = True, mf_problemId = 7, xpEarned = Some 2, totalXP = None\<rparr>,
            streamAt 15 [3, 0, 7, 0, 2] [])"
  using C2_concrete_scenario [of 15 16] by simp

section \<open>C3: the fields of the math packets\<close>

text \<open>
  C3. On the stream of fields, the math-challenge packet writes a string bounded by 32
  (the puzzle), a string bounded by 32 (the reward kind), an unsigned 8-bit reward count
  and an unsigned 16-bit problem identifier, in this order and nothing else, with no
  boolean group; the answer packet writes a signed 16-bit answer and the unsigned 16-bit
  problem identifier. Each \<open>deserialize\<close> succeeds exactly on a stream that starts
  with the same fields in the same order, and returns their values.
\<close>

theorem C3_math_packets_field_order:
  "MathProblemPacket_serialize fieldStream fs d =
     Inr (fs @ [FString 32 (problem d), FString 32 (rewardType d),
                FUint8 (rewardCount d), FUint16 (problemId d)])
   \<and> ((MathProblemPacket_deserialize fieldStream fs = Inr (d, rest)) =
        (fs = [FString 32 (problem d), FString 32 (rewardType d),
               FUint8 (rewardCount d), FUint16 (problemId d)] @ rest))
   \<and> MathAnswerPacket_serialize fieldStream fs a =
        Inr (fs @ [FInt16 (ma_answer a), FUint16 (ma_problemId a)])
   \<and> ((MathAnswerPacket_deserialize fieldStream fs = Inr (a, rest)) =
        (fs = [FInt16 (ma_answer a), FUint16 (ma_problemId a)] @ rest))"
proof (intro conjI)
  show "MathProblemPacket_serialize fieldStream fs d =
     Inr (fs @ [FString 32 (problem d), FString 32 (rewardType d),
                FUint8 (rewardCount d), FUint16 (problemId d)])"
    by (simp add: MathProblemPacket_serialize_def fieldStream_def putField_def)
  show "(MathProblemPacket_deserialize fieldStream fs = Inr (d, rest)) =
        (fs = [FString 32 (problem d), FString 32 (rewardType d),
               FUint8 (rewardCount d), FUint16 (problemId d)] @ rest)"
    by (cases d) (auto simp: MathProblemPacket_deserialize_def fieldStream_def andThen_Inr_iff)
  show "MathAnswerPacket_serialize fieldStream fs a =
        Inr (fs @ [FInt16 (ma_answer a), FUint16 (ma_problemId a)])"
    by (simp add: MathAnswerPacket_serialize_def fieldStream_def putField_def)
  show "(MathAnswerPacket_deserialize fieldStream fs = Inr (a, rest)) =
        (fs = [FInt16 (ma_answer a), FUint16 (ma_problemId a)] @ rest)"
    by (cases a) (auto simp: MathAnswerPacket_deserialize_def fieldStream_def andThen_Inr_iff)
qed

section \<open>C4: the join packet's flags and optional fields\<close>

text \<open>
  C4. On the stream of fields, the join packet's \<open>serialize\<close> writes one boolean group
  of ten flags (\<open>isMobile\<close>, badge present, auth token present, student identifier
  present, and one flag for each of the emotes 0 to 5), then the protocol version, the
  name and the skin, then the badge, the auth token (a string bounded by 256), the
  student identifier (a string bounded by 64) and the emotes 0 to 5, each of these only
  when it is present, in this order. When \<open>deserialize\<close> succeeds, the stream started
  with a boolean group, the three fixed fields and then exactly the optional fields of
  the payload returned, and an optional field is in the payload if and only if its flag
  of the group is set.
\<close>

theorem C4_join_flags_and_optional_fields:
  "JoinPacket_serialize (fieldCommon v) fs d =
     Inr (fs @
       [FBooleanGroup2
          [isMobile d, badge d \<noteq> None, authToken d \<noteq> None, studentId d \<noteq> None,
           elementAt (emotes d) 0 \<noteq> None, elementAt (emotes d) 1 \<noteq> None,
           elementAt (emotes d) 2 \<noteq> None, elementAt (emotes d) 3 \<noteq> None,
           elementAt (emotes d) 4 \<noteq> None, elementAt (emotes d) 5 \<noteq> None],
        FUint16 v, FPlayerName (name d), FReference ''Loots'' (skin d)] @
       optionalField (FReference ''Badges'') (badge d) @
       optionalField (FString 256) (authToken d) @
       optionalField (FString 64) (studentId d) @
       concat (map (\<lambda>i. optionalField (FReference ''Emotes'') (elementAt (emotes d) i)) [0..<6]))
   \<and> (JoinPacket_deserialize (fieldCommon v) gs = Inr (jd, rest) \<longrightarrow>
      (\<exists>flags n.
         gs = [FBooleanGroup2 flags, FUint16 (protocolVersion jd), FPlayerName n,
               FReference ''Loots'' (skin jd)] @
              optionalField (FReference ''Badges'') (badge jd) @
              optionalField (FString 256) (authToken jd) @
              optionalField (FString 64) (studentId jd) @
              concat (map (\<lambda>i. optionalField (FReference ''Emotes'') (emotes jd ! i)) [0..<6]) @
              rest \<and>
         isMobile jd = flagAt flags 0 \<and>
         (badge jd \<noteq> None) = flagAt flags 1 \<and>
         (authToken jd \<noteq> None) = flagAt flags 2 \<and>
         (studentId jd \<noteq> None) = flagAt flags 3 \<and>
         (\<forall>i<6. (emotes jd ! i \<noteq> None) = flagAt flags (4 + i))))"
proof (intro conjI impI)
  have loop: "forEach [0..<6]
       (\<lambda>i s. case elementAt (emotes d) i of None \<Rightarrow> Inr s
              | Some emote \<Rightarrow> writeToStream (fieldRegistry ''Emotes'') s emote) fs' =
     Inr (fs' @ concat (map (\<lambda>i. optionalField (FReference ''Emotes'') (elementAt (emotes d) i)) [0..<6]))"
    for fs'
    by (rule forEach_write_fields)
  have sel: "stream (fieldCommon v) = fieldStream" "Loots (fieldCommon v) = fieldRegistry ''Loots''"
    "Badges (fieldCommon v) = fieldRegistry ''Badges''" "Emotes (fieldCommon v) = fieldRegistry ''Emotes''"
    "GameConstants_protocolVersion (fieldCommon v) = v"
    by (simp_all add: fieldCommon_def)
  have prim: "writeBooleanGroup2 fieldStream g s = Inr (s @ [FBooleanGroup2 g])"
    "writeUint16 fieldStream x s = Inr (s @ [FUint16 x])"
    "writePlayerName fieldStream y s = Inr (s @ [FPlayerName y])"
    "writeToStream (fieldRegistry ''Loots'') s z = Inr (s @ [FReference ''Loots'' z])"
    for g s x y z
    by (simp_all add: fieldStream_def fieldRegistry_def putField_def)
  show "JoinPacket_serialize (fieldCommon v) fs d =
     Inr (fs @
       [FBooleanGroup2
          [isMobile d, badge d \<noteq> None, authToken d \<noteq> None, studentId d \<noteq> None,
           elementAt (emotes d) 0 \<noteq> None, elementAt (emotes d) 1 \<noteq> None,
           elementAt (emotes d) 2 \<noteq> None, elementAt (emotes d) 3 \<noteq> None,
           elementAt (emotes d) 4 \<noteq> None, elementAt (emotes d) 5 \<noteq> None],
        FUint16 v, FPlayerName (name d), FReference ''Loots'' (skin d)] @
       optionalField (FReference ''Badges'') (badge d) @
       optionalField (FString 256) (authToken d) @
       optionalField (FString 64) (studentId d) @
       concat (map (\<lambda>i. optionalField (FReference ''Emotes'') (elementAt (emotes d) i)) [0..<6]))"
    unfolding JoinPacket_serialize_def Let_def sel loop
    by (simp only: prim andThen_Inr write_optional_reference write_optional_string
          append_assoc append_Cons append_Nil)
next
  assume "JoinPacket_deserialize (fieldCommon v) gs = Inr (jd, rest)"
  then obtain flags s1 s2 n s3 s4 s5 s6 s7 where st:
    "readBooleanGroup2 (stream (fieldCommon v)) gs = Inr (flags, s1)"
    "readUint16 (stream (fieldCommon v)) s1 = Inr (protocolVersion jd, s2)"
    "readPlayerName (stream (fieldCommon v)) s2 = Inr (n, s3)"
    "readFromStream (Loots (fieldCommon v)) s3 = Inr (skin jd, s4)"
    "readIf (flagAt flags 1) (readFromStream (Badges (fieldCommon v))) s4 = Inr (badge jd, s5)"
    "readIf (flagAt flags 2) (readString (stream (fieldCommon v)) 256) s5 = Inr (authToken jd, s6)"
    "readIf (flagAt flags 3) (readString (stream (fieldCommon v)) 64) s6 = Inr (studentId jd, s7)"
    "forEach [0..<6]
       (\<lambda>i (es, s).
          if \<not> flagAt (drop 4 flags) i then Inr (es, s)
          else andThen (readFromStream (Emotes (fieldCommon v)) s) (\<lambda>(e, s). Inr (es[i := Some e], s)))
       (replicate 8 None, s7) = Inr (emotes jd, rest)"
    "name jd = sanitizeName n"
    "isMobile jd = flagAt flags 0"
    by (rule JoinPacket_deserialize_steps)
  have sel: "stream (fieldCommon v) = fieldStream" "Loots (fieldCommon v) = fieldRegistry ''Loots''"
    "Badges (fieldCommon v) = fieldRegistry ''Badges''" "Emotes (fieldCommon v) = fieldRegistry ''Emotes''"
    by (simp_all add: fieldCommon_def)
  from st(1) have f1: "gs = FBooleanGroup2 flags # s1" by (simp add: sel fieldStream_def)
  from st(2) have f2: "s1 = FUint16 (protocolVersion jd) # s2" by (simp add: sel fieldStream_def)
  from st(3) have f3: "s2 = FPlayerName n # s3" by (simp add: sel fieldStream_def)
  from st(4) have f4: "s3 = FReference ''Loots'' (skin jd) # s4" by (simp add: sel fieldRegistry_def)
  from st(5) have f5: "s4 = optionalField (FReference ''Badges'') (badge jd) @ s5"
    and b: "(badge jd \<noteq> None) = flagAt flags 1"
    by (auto simp: sel fieldRegistry_def readIf_field optionalField_def split: if_splits)
  from st(6) have f6: "s5 = optionalField (FString 256) (authToken jd) @ s6"
    and a: "(authToken jd \<noteq> None) = flagAt flags 2"
    by (auto simp: sel fieldStream_def readIf_field optionalField_def split: if_splits)
  from st(7) have f7: "s6 = optionalField (FString 64) (studentId jd) @ s7"
    and i: "(studentId jd \<noteq> None) = flagAt flags 3"
    by (auto simp: sel fieldStream_def readIf_field optionalField_def split: if_splits)
  have "distinct [0..<6]" "\<forall>i\<in>set [0..<6]. i < length (replicate 8 (None :: Definition option)) \<and>
      replicate 8 (None :: Definition option) ! i = None"
    by simp_all
  from forEach_read_fields [OF st(8) [unfolded sel] this]
  have f8: "s7 = concat (map (\<lambda>i. optionalField (FReference ''Emotes'') (emotes jd ! i)) [0..<6]) @ rest"
    and e: "\<forall>i\<in>set [0..<6]. (emotes jd ! i \<noteq> None) = flagAt (drop 4 flags) i"
    by blast+
  have "flagAt (drop 4 flags) j = flagAt flags (4 + j)" for j
    by (auto simp: flagAt_def)
  with e have e': "\<forall>i<6. (emotes jd ! i \<noteq> None) = flagAt flags (4 + i)" by simp
  have "gs = [FBooleanGroup2 flags, FUint16 (protocolVersion jd), FPlayerName n,
               FReference ''Loots'' (skin jd)] @
              optionalField (FReference ''Badges'') (badge jd) @
              optionalField (FString 256) (authToken jd) @
              optionalField (FString 64) (studentId jd) @
              concat (map (\<lambda>i. optionalField (FReference ''Emotes'') (emotes jd ! i)) [0..<6]) @
              rest"
    unfolding f1 f2 f3 f4 f5 f6 f7 f8 by simp
  with b a i e' st(10) show "\<exists>flags n.
         gs = [FBooleanGroup2 flags, FUint16 (protocolVersion jd), FPlayerName n,
               FReference ''Loots'' (skin jd)] @
              optionalField (FReference ''Badges'') (badge jd) @
              optionalField (FString 256) (authToken jd) @
              optionalField (FString 64) (studentId jd) @
              concat (map (\<lambda>i. optionalField (FReference ''Emotes'') (emotes jd ! i)) [0..<6]) @
              rest \<and>
         isMobile jd = flagAt flags 0 \<and>
         (badge jd \<noteq> None) = flagAt flags 1 \<and>
         (authToken jd \<noteq> None) = flagAt flags 2 \<and>
         (studentId jd \<noteq> None) = flagAt flags 3 \<and>
         (\<forall>i<6. (emotes jd ! i \<noteq> None) = flagAt flags (4 + i))"
    by blast
qed

text \<open>The theorem at the example payload and its stream.\<close>

theorem C4_join_flags_and_optional_fields_witness:
  "JoinPacket_serialize (fieldCommon 5) [] exampleJoinCreation = Inr exampleJoinFields \<and>
   JoinPacket_deserialize (fieldCommon 5) exampleJoinFields = Inr (exampleJoinData, []) \<and>
   badge exampleJoinData = None \<and> authToken exampleJoinData \<noteq> None \<and>
   studentId exampleJoinData = None \<and>
   emotes exampleJoinData ! 0 = None \<and> emotes exampleJoinData ! 1 \<noteq> None"
  using C4_join_flags_and_optional_fields
    [of 5 "[]" exampleJoinCreation exampleJoinFields exampleJoinData "[]"]
    example_join_encodes example_join_decodes
  by (simp add: exampleJoinData_def)

section \<open>C5: the decoded display name\<close>

text \<open>
  C5. Whatever the stream holds and however its operations are implemented, a name
  returned by the join packet's \<open>deserialize\<close> has no part of the form \<open><\<close>, one
  or more characters other than \<open>>\<close>, \<open>>\<close>, and neither starts nor ends with white
  space.
\<close>

theorem C5_join_name_sanitized:
  assumes "JoinPacket_deserialize cm s = Inr (d, s')"
  shows "\<not> (\<exists>pre mid post. name d = pre @ CHR ''<'' # mid @ CHR ''>'' # post \<and>
                            mid \<noteq> [] \<and> CHR ''>'' \<notin> set mid) \<and>
         (\<forall>t\<in>set whiteSpace. \<not> startsWith (name d) t \<and> \<not> endsWith (name d) t)"
proof -
  from assms obtain n where n: "name d = sanitizeName n"
    by (rule JoinPacket_deserialize_steps)
  have "\<not> hasMarkup (name d)" unfolding n by (rule sanitizeName_clean)
  moreover have "isTrimmed (name d)" unfolding n sanitizeName_def by (rule trim_isTrimmed)
  ultimately show ?thesis by (simp add: hasMarkup_iff isTrimmed_def list_all_iff)
qed

text \<open>The theorem at a stream whose name carries two tags and outer blanks.\<close>

theorem C5_join_name_sanitized_witness:
  "JoinPacket_deserialize (fieldCommon 5) exampleJoinFields = Inr (exampleJoinData, []) \<and>
   name exampleJoinData = ''Bob <3'' \<and>
   \<not> hasMarkup (name exampleJoinData) \<and> isTrimmed (name exampleJoinData)"
  using C5_join_name_sanitized [OF example_join_decodes] example_join_decodes
  by (simp add: hasMarkup_iff isTrimmed_def list_all_iff exampleJoinData_def)

section \<open>C6: strings longer than their bound\<close>

text \<open>
  C6. On the byte stream, a string longer than the bound \<open>maxLength\<close> of its field,
  written to a new stream and read back, is exactly its first \<open>maxLength\<close> bytes; the
  write succeeds when the capacity holds the bound and a four-byte prefix. So a
  math-challenge packet decodes with its two strings cut to 32 bytes, and a join packet
  with its auth token cut to 256 and its student identifier to 64. No write leaves more
  bytes in the buffer than the capacity, and no read moves the cursor beyond the bytes
  written.
\<close>

theorem C6_long_strings_are_cut:
  "(m < 4294967296 \<and> m < length str \<and> ByteStream_writeString m str (newStream cap) = Inr s \<longrightarrow>
      ByteStream_readString m s = Inr (take m str, s\<lparr>index := length (buffer s)\<rparr>) \<and>
      length (take m str) = m \<and> length (buffer s) \<le> capacity s)
   \<and> (m < 4294967296 \<and> m + 4 \<le> cap \<longrightarrow>
      (\<exists>s. ByteStream_writeString m str (newStream cap) = Inr s))
   \<and> (0 \<le> rewardCount d \<and> rewardCount d < 256 \<and> 0 \<le> problemId d \<and> problemId d < 65536 \<and>
       69 \<le> cap \<longrightarrow>
      (\<exists>s. MathProblemPacket_serialize (byteStream nm) (newStream cap) d = Inr s \<and>
           MathProblemPacket_deserialize (byteStream nm) s =
             Inr (d\<lparr>problem := take 32 (problem d), rewardType := take 32 (rewardType d)\<rparr>,
                  s\<lparr>index := length (buffer s)\<rparr>)))
   \<and> (knownReferences ls bs es j \<and> nm < 4294967296 \<and> 363 + nm \<le> cap \<longrightarrow>
      (\<exists>s jd s'. JoinPacket_serialize (byteCommon nm v ls bs es) (newStream cap) j = Inr s \<and>
           JoinPacket_deserialize (byteCommon nm v ls bs es) s = Inr (jd, s') \<and>
           authToken jd = map_option (take 256) (authToken j) \<and>
           studentId jd = map_option (take 64) (studentId j)))
   \<and> (writeBytes xs s0 = Inr s1 \<longrightarrow> length (buffer s1) \<le> capacity s1)
   \<and> (readBytes n s0 = Inr (ys, s1) \<longrightarrow>
        index s1 \<le> length (buffer s1) \<and> buffer s1 = buffer s0 \<and> length ys = n)"
proof (intro conjI impI)
  assume h: "m < 4294967296 \<and> m < length str \<and> ByteStream_writeString m str (newStream cap) = Inr s"
  then have s: "s = streamAt cap [] (encodeString m str)" and l: "length (encodeString m str) \<le> cap"
    using writeBytes_newStream_Inr [of "encodeString m str" cap s]
    by (simp_all add: ByteStream_writeString_def)
  from h have m: "m < 4294967296" by simp
  from readString_at [OF m, of cap "[]" str "[]"]
  show "ByteStream_readString m s = Inr (take m str, s\<lparr>index := length (buffer s)\<rparr>)"
    unfolding s by (simp add: streamAt_done)
  from h show "length (take m str) = m" by simp
  from l show "length (buffer s) \<le> capacity s" unfolding s by (simp add: streamAt_def)
next
  assume h: "m < 4294967296 \<and> m + 4 \<le> cap"
  with length_encodeString [of m str] have "length (encodeString m str) \<le> cap" by linarith
  then show "\<exists>s. ByteStream_writeString m str (newStream cap) = Inr s"
    by (simp add: ByteStream_writeString_def writeBytes_newStream)
next
  assume h: "0 \<le> rewardCount d \<and> rewardCount d < 256 \<and> 0 \<le> problemId d \<and> problemId d < 65536 \<and>
       69 \<le> cap"
  then have e1: "rewardCount d mod 256 = rewardCount d" "problemId d mod 65536 = problemId d"
    by simp_all
  have e2: "\<lparr>problem = take 32 (problem d), rewardType = take 32 (rewardType d),
      rewardCount = rewardCount d, problemId = problemId d\<rparr> =
      d\<lparr>problem := take 32 (problem d), rewardType := take 32 (rewardType d)\<rparr>"
    by (cases d) simp
  from h have c: "69 \<le> cap" by simp
  from MathProblemPacket_round_trip [OF c, of nm d]
  show "\<exists>s. MathProblemPacket_serialize (byteStream nm) (newStream cap) d = Inr s \<and>
           MathProblemPacket_deserialize (byteStream nm) s =
             Inr (d\<lparr>problem := take 32 (problem d), rewardType := take 32 (rewardType d)\<rparr>,
                  s\<lparr>index := length (buffer s)\<rparr>)"
    unfolding e1 e2 .
next
  assume h: "knownReferences ls bs es j \<and> nm < 4294967296 \<and> 363 + nm \<le> cap"
  then have k: "knownReferences ls bs es j" and n: "nm < 4294967296" and c: "363 + nm \<le> cap"
    by simp_all
  from JoinPacket_round_trip [OF k n c, of v] obtain s where
    "JoinPacket_serialize (byteCommon nm v ls bs es) (newStream cap) j = Inr s"
    "JoinPacket_deserialize (byteCommon nm v ls bs es) s =
               Inr (\<lparr>name = sanitizeName (take nm (name j)), isMobile = isMobile j, skin = skin j,
                     badge = badge j,
                     emotes = map (elementAt (emotes j)) [0..<6] @ [None, None],
                     authToken = map_option (take 256) (authToken j),
                     studentId = map_option (take 64) (studentId j),
                     protocolVersion = v mod 65536\<rparr>,
                    s\<lparr>index := length (buffer s)\<rparr>)"
    by blast
  then have "JoinPacket_serialize (byteCommon nm v ls bs es) (newStream cap) j = Inr s \<and>
     JoinPacket_deserialize (byteCommon nm v ls bs es) s =
       Inr (\<lparr>name = sanitizeName (take nm (name j)), isMobile = isMobile j, skin = skin j,
                     badge = badge j,
                     emotes = map (elementAt (emotes j)) [0..<6] @ [None, None],
                     authToken = map_option (take 256) (authToken j),
                     studentId = map_option (take 64) (studentId j),
                     protocolVersion = v mod 65536\<rparr>, s\<lparr>index := length (buffer s)\<rparr>) \<and>
     authToken \<lparr>name = sanitizeName (take nm (name j)), isMobile = isMobile j, skin = skin j,
                     badge = badge j,
                     emotes = map (elementAt (emotes j)) [0..<6] @ [None, None],
                     authToken = map_option (take 256) (authToken j),
                     studentId = map_option (take 64) (studentId j),
                     protocolVersion = v mod 65536\<rparr> = map_option (take 256) (authToken j) \<and>
     studentId \<lparr>name = sanitizeName (take nm (name j)), isMobile = isMobile j, skin = skin j,
                     badge = badge j,
                     emotes = map (elementAt (emotes j)) [0..<6] @ [None, None],
                     authToken = map_option (take 256) (authToken j),
                     studentId = map_option (take 64) (studentId j),
                     protocolVersion = v mod 65536\<rparr> = map_option (take 64) (studentId j)"
    by (simp del: upt_Suc)
  then show "\<exists>s jd s'. JoinPacket_serialize (byteCommon nm v ls bs es) (newStream cap) j = Inr s \<and>
           JoinPacket_deserialize (byteCommon nm v ls bs es) s = Inr (jd, s') \<and>
           authToken jd = map_option (take 256) (authToken j) \<and>
           studentId jd = map_option (take 64) (studentId j)"
    by blast
next
  assume "writeBytes xs s0 = Inr s1"
  then show "length (buffer s1) \<le> capacity s1" by (rule writeBytes_bound)
next
  assume r: "readBytes n s0 = Inr (ys, s1)"
  then show "index s1 \<le> length (buffer s1)" "buffer s1 = buffer s0"
    using readBytes_bound by blast+
  from r show "length ys = n" by (auto simp: readBytes_def split: if_splits)
qed

text \<open>The theorem at a string of five bytes bounded by 3, and at a puzzle of forty bytes.\<close>

theorem C6_long_strings_are_cut_witness:
  "ByteStream_writeString 3 ''gauze'' (newStream 379) = Inr (streamAt 379 [] [3, 103, 97, 117]) \<and>
   ByteStream_readString 3 (streamAt 379 [] [3, 103, 97, 117]) =
     Inr (''gau'', streamAt 379 [3, 103, 97, 117] []) \<and>
   (\<exists>s. MathProblemPacket_serialize (byteStream 16) (newStream 379) exampleLongProblem = Inr s \<and>
        MathProblemPacket_deserialize (byteStream 16) s =
          Inr (exampleLongProblem\<lparr>problem := ''12345678901234567890123456789012''\<rparr>,
               s\<lparr>index := length (buffer s)\<rparr>)) \<and>
   (\<exists>s jd s'. JoinPacket_serialize (byteCommon 16 5 exampleLoots [] exampleEmotes) (newStream 379)
          exampleJoinCreation = Inr s \<and>
        JoinPacket_deserialize (byteCommon 16 5 exampleLoots [] exampleEmotes) s = Inr (jd, s') \<and>
        authToken jd = Some ''token'')"
proof -
  have k: "knownReferences exampleLoots [] exampleEmotes exampleJoinCreation"
    using example_join_valid by (simp add: validJoin_def)
  have w: "writeBytes [] (newStream 379) = Inr (newStream 379)"
    by (simp add: writeBytes_def newStream_def)
  have r: "readBytes 0 (newStream 379) = Inr ([], newStream 379)"
    by (simp add: readBytes_def newStream_def)
  note t = C6_long_strings_are_cut
    [where m = 3 and str = "''gauze''" and cap = 379 and s = "streamAt 379 [] [3, 103, 97, 117]"
       and d = exampleLongProblem and nm = 16 and v = 5 and ls = exampleLoots
       and bs = "[]" and es = exampleEmotes and j = exampleJoinCreation
       and xs = "[]" and ?s0.0 = "newStream 379" and ?s1.0 = "newStream 379" and n = 0 and ys = "[]"]
  note t1 = t [THEN conjunct1, rule_format]
  note t3 = t [THEN conjunct2, THEN conjunct2, THEN conjunct1, rule_format]
  note t4 = t [THEN conjunct2, THEN conjunct2, THEN conjunct2, THEN conjunct1, rule_format]
  have p1: "(3 :: nat) < 4294967296 \<and> 3 < length ''gauze'' \<and>
      ByteStream_writeString 3 ''gauze'' (newStream 379) = Inr (streamAt 379 [] [3, 103, 97, 117])"
    using example_short_write by simp
  have a: "ByteStream_readString 3 (streamAt 379 [] [3, 103, 97, 117]) =
     Inr (''gau'', streamAt 379 [3, 103, 97, 117] [])"
    using t1 [OF p1] by (simp add: streamAt_def)
  have p3: "0 \<le> rewardCount exampleLongProblem \<and> rewardCount exampleLongProblem < 256 \<and>
      0 \<le> problemId exampleLongProblem \<and> problemId exampleLongProblem < 65536 \<and> (69 :: nat) \<le> 379"
    by (simp add: exampleLongProblem_def)
  have e3: "exampleLongProblem\<lparr>problem := take 32 (problem exampleLongProblem),
        rewardType := take 32 (rewardType exampleLongProblem)\<rparr> =
      exampleLongProblem\<lparr>problem := ''12345678901234567890123456789012''\<rparr>"
    by (simp add: exampleLongProblem_def)
  have b: "\<exists>s. MathProblemPacket_serialize (byteStream 16) (newStream 379) exampleLongProblem = Inr s \<and>
        MathProblemPacket_deserialize (byteStream 16) s =
          Inr (exampleLongProblem\<lparr>problem := ''12345678901234567890123456789012''\<rparr>,
               s\<lparr>index := length (buffer s)\<rparr>)"
    using t3 [OF p3] unfolding e3 .
  have p4: "knownReferences exampleLoots [] exampleEmotes exampleJoinCreation \<and>
      (16 :: nat) < 4294967296 \<and> (363 :: nat) + 16 \<le> 379"
    using k by simp
  have e4: "map_option (take 256) (authToken exampleJoinCreation) = Some ''token''"
    by (simp add: exampleJoinCreation_def)
  have c: "\<exists>s jd s'. JoinPacket_serialize (byteCommon 16 5 exampleLoots [] exampleEmotes) (newStream 379)
          exampleJoinCreation = Inr s \<and>
        JoinPacket_deserialize (byteCommon 16 5 exampleLoots [] exampleEmotes) s = Inr (jd, s') \<and>
        authToken jd = Some ''token''"
    using t4 [OF p4] unfolding e4 by blast
  from example_short_write a b c show ?thesis by (intro conjI)
qed

section \<open>C7: optional fields follow the flags read\<close>

text \<open>
  C7. For every implementation of the stream and every stream, when the feedback
  packet's or the join packet's \<open>deserialize\<close> returns a payload, its reads are one chain
  from the stream it was given to the stream it returns: the boolean group first, then
  the fixed fields, then each optional field in its order. Under a set flag the optional
  field is the value read at that point of the chain; under a clear flag nothing is read
  there (the stream passes on as it is) and the field is absent. This holds of the
  emotes 0 to 5 as well, read one after the other; the decoded emotes are an array of
  eight whose entries 6 and 7 are absent.
\<close>

theorem C7_optional_fields_follow_flags:
  "(MathFeedbackPacket_deserialize st s = Inr (fb, s') \<longrightarrow>
      (\<exists>flags s0 s1 s2.
         readBooleanGroup st s = Inr (flags, s0) \<and>
         readUint16 st s0 = Inr (mf_problemId fb, s1) \<and>
         isCorrect fb = flagAt flags 0 \<and>
         (if flagAt flags 1 then \<exists>x. readUint16 st s1 = Inr (x, s2) \<and> xpEarned fb = Some x
          else s2 = s1 \<and> xpEarned fb = None) \<and>
         (if flagAt flags 2 then \<exists>t. readUint32 st s2 = Inr (t, s') \<and> totalXP fb = Some t
          else s' = s2 \<and> totalXP fb = None)))
   \<and> (JoinPacket_deserialize cm js = Inr (jd, js') \<longrightarrow>
      (\<exists>flags s0 s1 n s2 s3 s4 s5 s6 u.
         readBooleanGroup2 (stream cm) js = Inr (flags, s0) \<and>
         isMobile jd = flagAt flags 0 \<and>
         readUint16 (stream cm) s0 = Inr (protocolVersion jd, s1) \<and>
         readPlayerName (stream cm) s1 = Inr (n, s2) \<and> name jd = sanitizeName n \<and>
         readFromStream (Loots cm) s2 = Inr (skin jd, s3) \<and>
         (if flagAt flags 1 then \<exists>b. readFromStream (Badges cm) s3 = Inr (b, s4) \<and> badge jd = Some b
          else s4 = s3 \<and> badge jd = None) \<and>
         (if flagAt flags 2 then \<exists>t. readString (stream cm) 256 s4 = Inr (t, s5) \<and> authToken jd = Some t
          else s5 = s4 \<and> authToken jd = None) \<and>
         (if flagAt flags 3 then \<exists>i. readString (stream cm) 64 s5 = Inr (i, s6) \<and> studentId jd = Some i
          else s6 = s5 \<and> studentId jd = None) \<and>
         u 0 = s6 \<and> u 6 = js' \<and>
         (\<forall>i<6. if flagAt flags (4 + i)
                then \<exists>e. readFromStream (Emotes cm) (u i) = Inr (e, u (Suc i)) \<and>
                         emotes jd ! i = Some e
                else u (Suc i) = u i \<and> emotes jd ! i = None) \<and>
         length (emotes jd) = 8 \<and> emotes jd ! 6 = None \<and> emotes jd ! 7 = None \<and>
         (\<forall>i<8. (emotes jd ! i = None) = (\<not> (i < 6 \<and> flagAt flags (4 + i))))))"
proof (intro conjI impI)
  assume "MathFeedbackPacket_deserialize st s = Inr (fb, s')"
  then obtain flags s0 s1 s2 where
    "readBooleanGroup st s = Inr (flags, s0)"
    "readUint16 st s0 = Inr (mf_problemId fb, s1)"
    "readIf (flagAt flags 1) (readUint16 st) s1 = Inr (xpEarned fb, s2)"
    "readIf (flagAt flags 2) (readUint32 st) s2 = Inr (totalXP fb, s')"
    "isCorrect fb = flagAt flags 0"
    by (rule MathFeedbackPacket_deserialize_steps)
  then have "readBooleanGroup st s = Inr (flags, s0) \<and>
         readUint16 st s0 = Inr (mf_problemId fb, s1) \<and>
         isCorrect fb = flagAt flags 0 \<and>
         (if flagAt flags 1 then \<exists>x. readUint16 st s1 = Inr (x, s2) \<and> xpEarned fb = Some x
          else s2 = s1 \<and> xpEarned fb = None) \<and>
         (if flagAt flags 2 then \<exists>t. readUint32 st s2 = Inr (t, s') \<and> totalXP fb = Some t
          else s' = s2 \<and> totalXP fb = None)"
    by (auto simp: readIf_Inr_iff split: if_splits)
  then show "\<exists>flags s0 s1 s2.
         readBooleanGroup st s = Inr (flags, s0) \<and>
         readUint16 st s0 = Inr (mf_problemId fb, s1) \<and>
         isCorrect fb = flagAt flags 0 \<and>
         (if flagAt flags 1 then \<exists>x. readUint16 st s1 = Inr (x, s2) \<and> xpEarned fb = Some x
          else s2 = s1 \<and> xpEarned fb = None) \<and>
         (if flagAt flags 2 then \<exists>t. readUint32 st s2 = Inr (t, s') \<and> totalXP fb = Some t
          else s' = s2 \<and> totalXP fb = None)"
    by blast
next
  assume "JoinPacket_deserialize cm js = Inr (jd, js')"
  then obtain flags s0 s1 n s2 s3 s4 s5 s6 where st:
    "readBooleanGroup2 (stream cm) js = Inr (flags, s0)"
    "readUint16 (stream cm) s0 = Inr (protocolVersion jd, s1)"
    "readPlayerName (stream cm) s1 = Inr (n, s2)"
    "readFromStream (Loots cm) s2 = Inr (skin jd, s3)"
    "readIf (flagAt flags 1) (readFromStream (Badges cm)) s3 = Inr (badge jd, s4)"
    "readIf (flagAt flags 2) (readString (stream cm) 256) s4 = Inr (authToken jd, s5)"
    "readIf (flagAt flags 3) (readString (stream cm) 64) s5 = Inr (studentId jd, s6)"
    "forEach [0..<6]
       (\<lambda>i (es, s).
          if \<not> flagAt (drop 4 flags) i then Inr (es, s)
          else andThen (readFromStream (Emotes cm) s) (\<lambda>(e, s). Inr (es[i := Some e], s)))
       (replicate 8 None, s6) = Inr (emotes jd, js')"
    "name jd = sanitizeName n"
    "isMobile jd = flagAt flags 0"
    by (rule JoinPacket_deserialize_steps)
  have fl: "flagAt (drop 4 flags) j = flagAt flags (4 + j)" for j
    by (auto simp: flagAt_def)
  have "distinct [0..<6]"
    and "\<forall>i\<in>set [0..<6]. i < length (replicate 8 (None :: Definition option))"
    by simp_all
  from forEach_read_chain [OF st(8) this] obtain ss where
    ss: "ss ! 0 = s6" "ss ! length [0..<6] = js'"
    and ch: "\<forall>j<length [0..<6].
              if flagAt (drop 4 flags) ([0..<6] ! j)
              then \<exists>e. readFromStream (Emotes cm) (ss ! j) = Inr (e, ss ! Suc j) \<and>
                       emotes jd ! ([0..<6] ! j) = Some e
              else ss ! Suc j = ss ! j \<and>
                   emotes jd ! ([0..<6] ! j) = replicate 8 None ! ([0..<6] ! j)"
    and un: "\<forall>k. k \<notin> set [0..<6] \<longrightarrow> emotes jd ! k = replicate 8 None ! k"
    and len: "length (emotes jd) = length (replicate 8 (None :: Definition option))"
    by blast
  define u where "u = (\<lambda>j. ss ! j)"
  from ss have u0: "u 0 = s6" and u6: "u 6 = js'" by (simp_all add: u_def)
  have chain: "if flagAt flags (4 + i)
               then \<exists>e. readFromStream (Emotes cm) (u i) = Inr (e, u (Suc i)) \<and>
                        emotes jd ! i = Some e
               else u (Suc i) = u i \<and> emotes jd ! i = None"
    if i: "i < 6" for i
  proof -
    from i have n: "[0..<6] ! i = i" by simp
    from i have r: "replicate 8 (None :: Definition option) ! i = None" by simp
    from i have "i < length [0..<6]" by simp
    from ch [rule_format, OF this] show ?thesis unfolding n r fl u_def .
  qed
  from len have l8: "length (emotes jd) = 8" by simp
  from un have e6: "emotes jd ! 6 = None" and e7: "emotes jd ! 7 = None" by simp_all
  have absent: "(emotes jd ! i = None) = (\<not> (i < 6 \<and> flagAt flags (4 + i)))" if i: "i < 8" for i
  proof (cases "i < 6")
    case True
    with chain [OF True] show ?thesis by (auto split: if_splits)
  next
    case False
    with i un show ?thesis by simp
  qed
  from st(5) have b: "if flagAt flags 1
      then \<exists>b. readFromStream (Badges cm) s3 = Inr (b, s4) \<and> badge jd = Some b
      else s4 = s3 \<and> badge jd = None"
    by (auto simp: readIf_Inr_iff split: if_splits)
  from st(6) have a: "if flagAt flags 2
      then \<exists>t. readString (stream cm) 256 s4 = Inr (t, s5) \<and> authToken jd = Some t
      else s5 = s4 \<and> authToken jd = None"
    by (auto simp: readIf_Inr_iff split: if_splits)
  from st(7) have i: "if flagAt flags 3
      then \<exists>i. readString (stream cm) 64 s5 = Inr (i, s6) \<and> studentId jd = Some i
      else s6 = s5 \<and> studentId jd = None"
    by (auto simp: readIf_Inr_iff split: if_splits)
  have c6: "\<forall>i<6. if flagAt flags (4 + i)
                then \<exists>e. readFromStream (Emotes cm) (u i) = Inr (e, u (Suc i)) \<and>
                         emotes jd ! i = Some e
                else u (Suc i) = u i \<and> emotes jd ! i = None"
    using chain by blast
  have a8: "\<forall>i<8. (emotes jd ! i = None) = (\<not> (i < 6 \<and> flagAt flags (4 + i)))"
    using absent by blast
  from st(1) st(10) st(2) st(3) st(9) st(4) b a i u0 u6 c6 l8 e6 e7 a8
  have "readBooleanGroup2 (stream cm) js = Inr (flags, s0) \<and>
         isMobile jd = flagAt flags 0 \<and>
         readUint16 (stream cm) s0 = Inr (protocolVersion jd, s1) \<and>
         readPlayerName (stream cm) s1 = Inr (n, s2) \<and> name jd = sanitizeName n \<and>
         readFromStream (Loots cm) s2 = Inr (skin jd, s3) \<and>
         (if flagAt flags 1 then \<exists>b. readFromStream (Badges cm) s3 = Inr (b, s4) \<and> badge jd = Some b
          else s4 = s3 \<and> badge jd = None) \<and>
         (if flagAt flags 2 then \<exists>t. readString (stream cm) 256 s4 = Inr (t, s5) \<and> authToken jd = Some t
          else s5 = s4 \<and> authToken jd = None) \<and>
         (if flagAt flags 3 then \<exists>i. readString (stream cm) 64 s5 = Inr (i, s6) \<and> studentId jd = Some i
          else s6 = s5 \<and> studentId jd = None) \<and>
         u 0 = s6 \<and> u 6 = js' \<and>
         (\<forall>i<6. if flagAt flags (4 + i)
                then \<exists>e. readFromStream (Emotes cm) (u i) = Inr (e, u (Suc i)) \<and>
                         emotes jd ! i = Some e
                else u (Suc i) = u i \<and> emotes jd ! i = None) \<and>
         length (emotes jd) = 8 \<and> emotes jd ! 6 = None \<and> emotes jd ! 7 = None \<and>
         (\<forall>i<8. (emotes jd ! i = None) = (\<not> (i < 6 \<and> flagAt flags (4 + i))))"
    by (intro conjI)
  then show "\<exists>flags s0 s1 n s2 s3 s4 s5 s6 u.
         readBooleanGroup2 (stream cm) js = Inr (flags, s0) \<and>
         isMobile jd = flagAt flags 0 \<and>
         readUint16 (stream cm) s0 = Inr (protocolVersion jd, s1) \<and>
         readPlayerName (stream cm) s1 = Inr (n, s2) \<and> name jd = sanitizeName n \<and>
         readFromStream (Loots cm) s2 = Inr (skin jd, s3) \<and>
         (if flagAt flags 1 then \<exists>b. readFromStream (Badges cm) s3 = Inr (b, s4) \<and> badge jd = Some b
          else s4 = s3 \<and> badge jd = None) \<and>
         (if flagAt flags 2 then \<exists>t. readString (stream cm) 256 s4 = Inr (t, s5) \<and> authToken jd = Some t
          else s5 = s4 \<and> authToken jd = None) \<and>
         (if flagAt flags 3 then \<exists>i. readString (stream cm) 64 s5 = Inr (i, s6) \<and> studentId jd = Some i
          else s6 = s5 \<and> studentId jd = None) \<and>
         u 0 = s6 \<and> u 6 = js' \<and>
         (\<forall>i<6. if flagAt flags (4 + i)
                then \<exists>e. readFromStream (Emotes cm) (u i) = Inr (e, u (Suc i)) \<and>
                         emotes jd ! i = Some e
                else u (Suc i) = u i \<and> emotes jd ! i = None) \<and>
         length (emotes jd) = 8 \<and> emotes jd ! 6 = None \<and> emotes jd ! 7 = None \<and>
         (\<forall>i<8. (emotes jd ! i = None) = (\<not> (i < 6 \<and> flagAt flags (4 + i))))"
    by blast
qed

text \<open>The theorem at the two example streams.\<close>

theorem C7_optional_fields_follow_flags_witness:
  "MathFeedbackPacket_deserialize fieldStream exampleFeedbackFields = Inr (exampleFeedbackData, []) \<and>
   xpEarned exampleFeedbackData = Some 2 \<and> totalXP exampleFeedbackData = None \<and>
   JoinPacket_deserialize (fieldCommon 5) exampleJoinFields = Inr (exampleJoinData, []) \<and>
   badge exampleJoinData = None \<and> authToken exampleJoinData = Some ''token'' \<and>
   studentId exampleJoinData = None \<and> length (emotes exampleJoinData) = 8 \<and>
   emotes exampleJoinData ! 0 = None \<and> emotes exampleJoinData ! 1 \<noteq> None"
  using C7_optional_fields_follow_flags
    [of fieldStream exampleFeedbackFields exampleFeedbackData "[]"
        "fieldCommon 5" exampleJoinFields exampleJoinData "[]"]
    example_feedback_decodes example_join_decodes
  by (simp add: exampleFeedbackData_def exampleJoinData_def)

section \<open>C8: truncated streams\<close>



section \<open>C9: the answer of a generated problem\<close>

text \<open>
  C9. Whenever \<open>random(min, max)\<close> returns a number between its bounds, the problem that
  \<open>generateProblem\<close> returns has an answer from 0 to 81, which the signed 16-bit field of
  the answer packet holds unchanged. The problem is a sum, a difference of the larger and
  the smaller operand, a product, or a quotient whose dividend is the product of the
  answer and the divisor; the operands are from 1 to 9.
\<close>

theorem C9_generated_answer_in_range:
  assumes "\<forall>lo hi g. lo \<le> hi \<longrightarrow> lo \<le> fst (random lo hi g) \<and> fst (random lo hi g) \<le> hi"
    and "generateProblem random this player g = (p, this', g')"
  shows "0 \<le> answer p \<and> answer p \<le> 81 \<and>
         sint (word_of_int (answer p) :: 16 word) = answer p \<and>
         (\<exists>a b. 1 \<le> a \<and> a \<le> 9 \<and> 1 \<le> b \<and> b \<le> 9 \<and>
           (problem p = numberToString a @ '' + '' @ numberToString b \<and> answer p = a + b \<or>
            problem p = numberToString a @ '' - '' @ numberToString b \<and> b \<le> a \<and> answer p = a - b \<or>
            problem p = numberToString a @ '' '' @ timesSign @ '' '' @ numberToString b \<and>
              answer p = a * b \<or>
            problem p = numberToString (a * b) @ '' '' @ divideSign @ '' '' @ numberToString b \<and>
              answer p = a))"
proof -
  from assms(1) have "\<And>lo hi g. lo \<le> hi \<Longrightarrow> lo \<le> fst (random lo hi g) \<and> fst (random lo hi g) \<le> hi"
    by blast
  from generateProblem_shape [of random this player g p this' g', OF this assms(2)]
  obtain a b where ab: "1 \<le> a" "a \<le> 9" "1 \<le> b" "b \<le> 9"
    and sh: "problem p = numberToString a @ '' + '' @ numberToString b \<and> answer p = a + b \<or>
            problem p = numberToString a @ '' - '' @ numberToString b \<and> b \<le> a \<and> answer p = a - b \<or>
            problem p = numberToString a @ '' '' @ timesSign @ '' '' @ numberToString b \<and>
              answer p = a * b \<or>
            problem p = numberToString (a * b) @ '' '' @ divideSign @ '' '' @ numberToString b \<and>
              answer p = a"
    by blast
  note pr = product_of_digits [OF ab]
  from sh ab pr have rng: "0 \<le> answer p \<and> answer p \<le> 81" by auto
  then have "sint (word_of_int (answer p) :: 16 word) = answer p"
    by (intro int16_holds) simp_all
  with rng ab sh show ?thesis by blast
qed

text \<open>The theorem at the counting generator, which draws the quotient of 30 and 6.\<close>

theorem C9_generated_answer_in_range_witness:
  "answer exampleGenerated = 5 \<and> 0 \<le> answer exampleGenerated \<and> answer exampleGenerated \<le> 81 \<and>
   sint (word_of_int (answer exampleGenerated) :: 16 word) = answer exampleGenerated"
  using C9_generated_answer_in_range [OF countingRandom_in_bounds example_generates]
  by (simp add: exampleGenerated_def)

section \<open>C10: a rejected answer changes nothing\<close>

text \<open>
  C10. \<open>validateAnswer\<close> returns true exactly when the player has an active problem with
  the submitted identifier and the submitted answer. When it returns false, the manager,
  the player and the generator are as they were: in particular the player's items and the
  player's active problem.
\<close>

theorem C10_validateAnswer_false_changes_nothing:
  assumes "validateAnswer random this player submitted submittedId g = (ok, this', player', g')"
  shows "(ok = (\<exists>p. activeProblem this (player_id player) = Some p \<and>
                     problemId p = submittedId \<and> answer p = submitted)) \<and>
         (\<not> ok \<longrightarrow> this' = this \<and> player' = player \<and> g' = g \<and>
                  items player' = items player \<and>
                  activeProblem this' (player_id player) = activeProblem this (player_id player))"
  using assms
  by (auto simp: validateAnswer_def Let_def split: option.splits if_splits prod.splits)

text \<open>The theorem at a wrong and at the right answer to the example problem.\<close>

theorem C10_validateAnswer_false_changes_nothing_witness:
  "validateAnswer countingRandom exampleManager examplePlayer 6 7 1 =
     (False, exampleManager, examplePlayer, 1) \<and>
   activeProblem exampleManager (player_id examplePlayer) \<noteq> None \<and>
   fst (validateAnswer countingRandom exampleManager examplePlayer 7 7 1)"
proof -
  have w: "validateAnswer countingRandom exampleManager examplePlayer 6 7 1 =
     (False, exampleManager, examplePlayer, 1)"
    by (simp add: validateAnswer_def exampleManager_def examplePlayer_def)
  obtain ok t pl g where
    r: "validateAnswer countingRandom exampleManager examplePlayer 7 7 1 = (ok, t, pl, g)"
    by (cases "validateAnswer countingRandom exampleManager examplePlayer 7 7 1") blast
  have "\<exists>p. activeProblem exampleManager (player_id examplePlayer) = Some p \<and>
             problemId p = 7 \<and> answer p = 7"
    by (simp add: exampleManager_def examplePlayer_def)
  with C10_validateAnswer_false_changes_nothing [OF r] have "ok" by blast
  with r C10_validateAnswer_false_changes_nothing [OF w] w show ?thesis
    by (simp add: exampleManager_def examplePlayer_def)
qed

end
